theory Spec2Isabelle
  imports Main "HOL-Library.Word"
begin

section \<open>The Avro archive writer and reader of esque (src/esque/avromessage.py)\<close>

text \<open>
  The writer turns each polled Kafka message into one pickled record and, whenever the
  schema pair of the message differs from the current one, opens a new schema directory
  under the working directory. The reader reads the records back and looks the two
  schema documents up in the directory each record names.

  Everything the Python code does besides returning a value is explicit here:
  \<^item> the attributes of the \<^verbatim>\<open>AvroFileWriter\<close> object, the working directory, the
    output file and the traces of the calls made to the schema registry and of the
    directories made are the fields of one record, passed in and returned;
  \<^item> an exception is an \<open>error\<close> value; a call that raises returns the error together
    with the state as the exception left it;
  \<^item> the schema registry client, the Avro decoder (\<^verbatim>\<open>fastavro.schemaless_reader\<close>),
    \<^verbatim>\<open>json.dumps\<close> and the schema parser (\<^verbatim>\<open>confluent_kafka.avro.loads\<close>) are
    external libraries: they are parameters of the functions that call them. The
    registry is a function of the schema id: it answers the same id the same way
    throughout a session.
\<close>

subsection \<open>Data\<close>

type_synonym byte = "8 word"

text \<open>
  The exceptions: \<open>StructError\<close> is \<^verbatim>\<open>struct.error\<close> (a wire header of the wrong
  length), \<open>FileNotFoundError\<close> and \<open>FileExistsError\<close> come from \<^verbatim>\<open>pathlib\<close>,
  \<open>TypeError\<close> from joining a path with \<^verbatim>\<open>None\<close>; the others are raised by the
  external libraries.
\<close>

datatype error =
    StructError
  | SchemaNotFound
  | RegistryUnavailable
  | AvroDecodeError
  | SchemaParseError
  | FileExistsError
  | FileNotFoundError
  | TypeError

text \<open>What \<^verbatim>\<open>get_schema_from_id\<close> returns: the schema as JSON and as parsed by fastavro.\<close>

record ('o, 'p) schema_pair =
  original_schema :: 'o
  parsed_schema :: 'p

text \<open>The two payloads of a \<^verbatim>\<open>confluent_kafka\<close> message; \<open>None\<close> is Python's \<^verbatim>\<open>None\<close>.\<close>

record message =
  m_key :: "byte list option"
  m_value :: "byte list option"

record 'v decoded_avro_message =
  d_key :: "'v option"
  d_value :: "'v option"
  key_schema_id :: int
  value_schema_id :: int

text \<open>The dictionary that is pickled for each message.\<close>

record 'v pickled =
  r_key :: "'v option"
  r_value :: "'v option"
  schema_directory_name :: "string option"

record ('v, 's) kafka_message =
  k_key :: "'v option"
  k_value :: "'v option"
  key_schema :: 's
  value_schema :: 's

text \<open>
  The state of one writer session. The first four fields are the attributes of the
  \<^verbatim>\<open>AvroFileWriter\<close> object (\<open>schema_version\<close> is the number that
  \<^verbatim>\<open>next(self.schema_version)\<close> returns next); \<open>working_dir\<close> maps the name of
  each directory under the working directory to its files and their text; \<open>out_file\<close>
  is the sequence of records pickled so far; \<open>resolver_calls\<close> and \<open>mkdir_calls\<close>
  record, in order, the schema ids passed to the registry and the directories made.
\<close>

record 'v session =
  current_key_schema_id :: "int option"
  current_value_schema_id :: "int option"
  schema_dir_name :: "string option"
  schema_version :: nat
  working_dir :: "string \<rightharpoonup> (string \<rightharpoonup> string)"
  out_file :: "'v pickled list"
  resolver_calls :: "int list"
  mkdir_calls :: "string list"

text \<open>\<^verbatim>\<open>AvroFileWriter.__init__\<close>, on an empty working directory and an empty file.\<close>

definition new_session :: "'v session" where
  "new_session =
     \<lparr>current_key_schema_id = None, current_value_schema_id = None,
      schema_dir_name = None, schema_version = 1,
      working_dir = Map.empty, out_file = [], resolver_calls = [], mkdir_calls = []\<rparr>"

subsection \<open>The wire header\<close>

text \<open>
  \<^verbatim>\<open>struct.unpack(">bI", buf)\<close>: the buffer must hold exactly five bytes, a signed
  char and a big-endian unsigned 32-bit integer.
\<close>

definition be_uint :: "byte list \<Rightarrow> int" where
  "be_uint bs = foldl (\<lambda>acc b. acc * 256 + uint b) 0 bs"

fun unpack_bI :: "byte list \<Rightarrow> error + (int \<times> int)" where
  "unpack_bI [m, b1, b2, b3, b4] = Inr (sint m, be_uint [b1, b2, b3, b4])"
| "unpack_bI _ = Inl StructError"

definition extract_schema_id :: "byte list \<Rightarrow> error + int" where
  "extract_schema_id message =
     (case unpack_bI (take 5 message) of
        Inl e \<Rightarrow> Inl e
      | Inr (_, schema_id) \<Rightarrow> Inr schema_id)"

subsection \<open>The writer\<close>

text \<open>A call of the registry client: the id is recorded, the registry answers.\<close>

definition get_schema_from_id ::
  "(int \<Rightarrow> error + ('o, 'p) schema_pair) \<Rightarrow> int \<Rightarrow> 'v session \<Rightarrow>
     (error + ('o, 'p) schema_pair) \<times> 'v session" where
  "get_schema_from_id registry schema_id st =
     (registry schema_id, st\<lparr>resolver_calls := resolver_calls st @ [schema_id]\<rparr>)"

text \<open>
  \<^verbatim>\<open>decode_bytes\<close>: the stream read of five bytes is \<open>take 5\<close>, and the Avro
  decoder reads on from there, \<open>drop 5\<close>.
\<close>

definition decode_bytes ::
  "(int \<Rightarrow> error + ('o, 'p) schema_pair) \<Rightarrow> ('p \<Rightarrow> byte list \<Rightarrow> error + 'v option) \<Rightarrow>
     byte list option \<Rightarrow> 'v session \<Rightarrow> (error + (int \<times> 'v option)) \<times> 'v session" where
  "decode_bytes registry schemaless_reader raw_data st =
     (case raw_data of
        None \<Rightarrow> (Inr (- 1, None), st)
      | Some raw \<Rightarrow>
          (case extract_schema_id (take 5 raw) of
             Inl e \<Rightarrow> (Inl e, st)
           | Inr schema_id \<Rightarrow>
               (case get_schema_from_id registry schema_id st of
                  (Inl e, st1) \<Rightarrow> (Inl e, st1)
                | (Inr sp, st1) \<Rightarrow>
                    (case schemaless_reader (parsed_schema sp) (drop 5 raw) of
                       Inl e \<Rightarrow> (Inl e, st1)
                     | Inr record \<Rightarrow> (Inr (schema_id, record), st1)))))"

text \<open>
  \<^verbatim>\<open>schema_changed\<close>. The current ids are \<^verbatim>\<open>None\<close> before the first segment, and
  \<^verbatim>\<open>None != n\<close> is true for every integer.
\<close>

definition schema_changed :: "'v session \<Rightarrow> 'v decoded_avro_message \<Rightarrow> bool" where
  "schema_changed st decoded_message \<longleftrightarrow>
     (current_value_schema_id st \<noteq> Some (value_schema_id decoded_message)
        \<and> d_value decoded_message \<noteq> None)
     \<or> current_key_schema_id st \<noteq> Some (key_schema_id decoded_message)"

text \<open>Python's \<^verbatim>\<open>str\<close> of an integer and the format \<^verbatim>\<open>:04\<close> of a counter value.\<close>

definition digit_char :: "nat \<Rightarrow> char" where
  "digit_char d = char_of (48 + d)"

fun str_nat :: "nat \<Rightarrow> string" where
  "str_nat n = (if n < 10 then [digit_char n] else str_nat (n div 10) @ [digit_char (n mod 10)])"

declare str_nat.simps [simp del]

definition str_int :: "int \<Rightarrow> string" where
  "str_int i = (if i < 0 then CHR ''-'' # str_nat (nat (- i)) else str_nat (nat i))"

definition format_04 :: "nat \<Rightarrow> string" where
  "format_04 n = replicate (4 - length (str_nat n)) CHR ''0'' @ str_nat n"

definition segment_name :: "nat \<Rightarrow> int \<Rightarrow> int \<Rightarrow> string" where
  "segment_name n k v = format_04 n @ ''_'' @ str_int k @ ''_'' @ str_int v"

text \<open>\<^verbatim>\<open>Path.mkdir\<close> raises when the directory exists; \<^verbatim>\<open>Path.write_text\<close>
  raises when the directory of the file does not.\<close>

definition mkdir :: "string \<Rightarrow> 'v session \<Rightarrow> error option \<times> 'v session" where
  "mkdir name st =
     (case working_dir st name of
        Some _ \<Rightarrow> (Some FileExistsError, st)
      | None \<Rightarrow>
          (None, st\<lparr>working_dir := (working_dir st)(name \<mapsto> Map.empty),
                    mkdir_calls := mkdir_calls st @ [name]\<rparr>))"

definition write_text :: "string \<Rightarrow> string \<Rightarrow> string \<Rightarrow> 'v session \<Rightarrow> error option \<times> 'v session" where
  "write_text name file_name text st =
     (case working_dir st name of
        None \<Rightarrow> (Some FileNotFoundError, st)
      | Some d \<Rightarrow> (None, st\<lparr>working_dir := (working_dir st)(name \<mapsto> d(file_name \<mapsto> text))\<rparr>))"

text \<open>
  The body of the \<^verbatim>\<open>if\<close> of \<^verbatim>\<open>write_message_to_file\<close> (lines 41 to 54): the
  attributes are assigned first, then the directory is made, then each schema is
  fetched and written.
\<close>

definition open_segment ::
  "(int \<Rightarrow> error + ('o, 'p) schema_pair) \<Rightarrow> ('o \<Rightarrow> string) \<Rightarrow> int \<Rightarrow> int \<Rightarrow> 'v session \<Rightarrow>
     error option \<times> 'v session" where
  "open_segment registry json_dumps key_id value_id st =
     (let name = segment_name (schema_version st) key_id value_id;
          st1 = st\<lparr>schema_dir_name := Some name,
                   schema_version := Suc (schema_version st),
                   current_key_schema_id := Some key_id,
                   current_value_schema_id := Some value_id\<rparr>
      in case mkdir name st1 of
           (Some e, st2) \<Rightarrow> (Some e, st2)
         | (None, st2) \<Rightarrow>
             (case get_schema_from_id registry key_id st2 of
                (Inl e, st3) \<Rightarrow> (Some e, st3)
              | (Inr ks, st3) \<Rightarrow>
                  (case write_text name ''key_schema.avsc'' (json_dumps (original_schema ks)) st3 of
                     (Some e, st4) \<Rightarrow> (Some e, st4)
                   | (None, st4) \<Rightarrow>
                       (case get_schema_from_id registry value_id st4 of
                          (Inl e, st5) \<Rightarrow> (Some e, st5)
                        | (Inr vs, st5) \<Rightarrow>
                            write_text name ''value_schema.avsc''
                              (json_dumps (original_schema vs)) st5))))"

definition write_message_to_file ::
  "(int \<Rightarrow> error + ('o, 'p) schema_pair) \<Rightarrow> ('p \<Rightarrow> byte list \<Rightarrow> error + 'v option) \<Rightarrow>
     ('o \<Rightarrow> string) \<Rightarrow> 'v session \<Rightarrow> message \<Rightarrow> error option \<times> 'v session" where
  "write_message_to_file registry schemaless_reader json_dumps st message =
     (case decode_bytes registry schemaless_reader (m_key message) st of
        (Inl e, st1) \<Rightarrow> (Some e, st1)
      | (Inr (key_id, decoded_key), st1) \<Rightarrow>
          (case decode_bytes registry schemaless_reader (m_value message) st1 of
             (Inl e, st2) \<Rightarrow> (Some e, st2)
           | (Inr (value_id, decoded_value), st2) \<Rightarrow>
               (let decoded_message =
                      \<lparr>d_key = decoded_key, d_value = decoded_value,
                       key_schema_id = key_id, value_schema_id = value_id\<rparr>
                in case (if schema_changed st2 decoded_message \<or> schema_dir_name st2 = None
                         then open_segment registry json_dumps key_id value_id st2
                         else (None, st2)) of
                     (Some e, st3) \<Rightarrow> (Some e, st3)
                   | (None, st3) \<Rightarrow>
                       (None, st3\<lparr>out_file := out_file st3 @
                          [\<lparr>r_key = decoded_key, r_value = decoded_value,
                            schema_directory_name = schema_dir_name st3\<rparr>]\<rparr>))))"

text \<open>
  Successive calls on the messages of a stream: \<open>write_all\<close> stops at the first call
  that raises, as a caller that does not catch the exception does; \<open>write_each\<close> goes on
  with the next message, as a caller that catches it does.
\<close>

fun write_all ::
  "(int \<Rightarrow> error + ('o, 'p) schema_pair) \<Rightarrow> ('p \<Rightarrow> byte list \<Rightarrow> error + 'v option) \<Rightarrow>
     ('o \<Rightarrow> string) \<Rightarrow> 'v session \<Rightarrow> message list \<Rightarrow> error option \<times> 'v session" where
  "write_all registry schemaless_reader json_dumps st [] = (None, st)"
| "write_all registry schemaless_reader json_dumps st (m # ms) =
     (case write_message_to_file registry schemaless_reader json_dumps st m of
        (Some e, st1) \<Rightarrow> (Some e, st1)
      | (None, st1) \<Rightarrow> write_all registry schemaless_reader json_dumps st1 ms)"

fun write_each ::
  "(int \<Rightarrow> error + ('o, 'p) schema_pair) \<Rightarrow> ('p \<Rightarrow> byte list \<Rightarrow> error + 'v option) \<Rightarrow>
     ('o \<Rightarrow> string) \<Rightarrow> 'v session \<Rightarrow> message list \<Rightarrow> 'v session" where
  "write_each registry schemaless_reader json_dumps st [] = st"
| "write_each registry schemaless_reader json_dumps st (m # ms) =
     write_each registry schemaless_reader json_dumps
       (snd (write_message_to_file registry schemaless_reader json_dumps st m)) ms"

subsection \<open>The reader\<close>

definition read_text :: "(string \<rightharpoonup> (string \<rightharpoonup> string)) \<Rightarrow> string \<Rightarrow> string \<Rightarrow> error + string" where
  "read_text wd name file_name =
     (case wd name of
        None \<Rightarrow> Inl FileNotFoundError
      | Some d \<Rightarrow> (case d file_name of None \<Rightarrow> Inl FileNotFoundError | Some text \<Rightarrow> Inr text))"

text \<open>
  \<^verbatim>\<open>read_from_file\<close>: the file is the list of the records not read yet, and the call
  returns what is left of it. \<^verbatim>\<open>pickle.load\<close> raises \<^verbatim>\<open>EOFError\<close> on the empty
  list, and the call returns \<^verbatim>\<open>None\<close>.
\<close>

definition read_from_file ::
  "(string \<Rightarrow> error + 's) \<Rightarrow> (string \<rightharpoonup> (string \<rightharpoonup> string)) \<Rightarrow> 'v pickled list \<Rightarrow>
     (error + ('v, 's) kafka_message option) \<times> 'v pickled list" where
  "read_from_file load_schema wd file =
     (case file of
        [] \<Rightarrow> (Inr None, [])
      | record # rest \<Rightarrow>
          (case schema_directory_name record of
             None \<Rightarrow> (Inl TypeError, rest)
           | Some name \<Rightarrow>
               (case read_text wd name ''key_schema.avsc'' of
                  Inl e \<Rightarrow> (Inl e, rest)
                | Inr key_text \<Rightarrow>
                    (case load_schema key_text of
                       Inl e \<Rightarrow> (Inl e, rest)
                     | Inr ks \<Rightarrow>
                         (case read_text wd name ''value_schema.avsc'' of
                            Inl e \<Rightarrow> (Inl e, rest)
                          | Inr value_text \<Rightarrow>
                              (case load_schema value_text of
                                 Inl e \<Rightarrow> (Inl e, rest)
                               | Inr vs \<Rightarrow>
                                   (Inr (Some \<lparr>k_key = r_key record, k_value = r_value record,
                                               key_schema = ks, value_schema = vs\<rparr>),
                                    rest)))))))"

text \<open>Successive calls until one returns \<^verbatim>\<open>None\<close> or raises.\<close>

fun read_all ::
  "(string \<Rightarrow> error + 's) \<Rightarrow> (string \<rightharpoonup> (string \<rightharpoonup> string)) \<Rightarrow> 'v pickled list \<Rightarrow>
     error + ('v, 's) kafka_message list" where
  "read_all load_schema wd [] = Inr []"
| "read_all load_schema wd (r # rs) =
     (case fst (read_from_file load_schema wd (r # rs)) of
        Inl e \<Rightarrow> Inl e
      | Inr None \<Rightarrow> Inr []
      | Inr (Some km) \<Rightarrow>
          (case read_all load_schema wd rs of
             Inl e \<Rightarrow> Inl e
           | Inr kms \<Rightarrow> Inr (km # kms)))"

subsection \<open>Observations used in the statements\<close>

text \<open>
  The value that \<open>decode_bytes\<close> returns does not depend on the session, and the ids it
  passes to the registry depend on the payload only: both are named here, and the lemmas
  \<open>decode_bytes_eq\<close> below relate them to \<open>decode_bytes\<close>.
\<close>

definition decode_result ::
  "(int \<Rightarrow> error + ('o, 'p) schema_pair) \<Rightarrow> ('p \<Rightarrow> byte list \<Rightarrow> error + 'v option) \<Rightarrow>
     byte list option \<Rightarrow> error + (int \<times> 'v option)" where
  "decode_result registry schemaless_reader raw_data =
     fst (decode_bytes registry schemaless_reader raw_data (new_session :: 'v session))"

definition header_ids :: "byte list option \<Rightarrow> int list" where
  "header_ids raw_data =
     (case raw_data of
        None \<Rightarrow> []
      | Some raw \<Rightarrow> (case extract_schema_id (take 5 raw) of Inl _ \<Rightarrow> [] | Inr i \<Rightarrow> [i]))"

text \<open>
  The condition under which the specification says a segment is opened, on the ids
  \<open>k\<close> and \<open>v\<close> and the decoded value \<open>dv\<close> of the message; the code's condition is
  \<open>schema_changed\<close> or no directory name yet.
\<close>

definition trigger :: "'v session \<Rightarrow> int \<Rightarrow> int \<Rightarrow> 'v option \<Rightarrow> bool" where
  "trigger st k v dv \<longleftrightarrow>
     schema_dir_name st = None \<or> current_key_schema_id st \<noteq> Some k
       \<or> (current_value_schema_id st \<noteq> Some v \<and> dv \<noteq> None)"

text \<open>The four assignments that start \<open>open_segment\<close>.\<close>

definition opened :: "'v session \<Rightarrow> int \<Rightarrow> int \<Rightarrow> 'v session" where
  "opened st k v =
     st\<lparr>schema_dir_name := Some (segment_name (schema_version st) k v),
        schema_version := Suc (schema_version st),
        current_key_schema_id := Some k,
        current_value_schema_id := Some v\<rparr>"

text \<open>
  A call that opens no segment leaves the attributes of the writer, the working
  directory and the list of directories made as they were.
\<close>

definition same_segment_state :: "'v session \<Rightarrow> 'v session \<Rightarrow> bool" where
  "same_segment_state st st' \<longleftrightarrow>
     current_key_schema_id st' = current_key_schema_id st
     \<and> current_value_schema_id st' = current_value_schema_id st
     \<and> schema_dir_name st' = schema_dir_name st
     \<and> schema_version st' = schema_version st
     \<and> working_dir st' = working_dir st
     \<and> mkdir_calls st' = mkdir_calls st"

text \<open>The number that a string of decimal digits denotes.\<close>

definition dec_val :: "string \<Rightarrow> nat" where
  "dec_val s = foldl (\<lambda>a c. 10 * a + (of_char c - 48)) 0 s"

text \<open>
  What holds of every session reached from \<open>new_session\<close>: the counter is one more
  than the number of directories made, the working directory holds exactly those, and
  the \<open>i\<close>-th of them, counted from 0, carries the number \<open>i + 1\<close>.
\<close>

definition session_inv :: "'v session \<Rightarrow> bool" where
  "session_inv st \<longleftrightarrow>
     schema_version st = Suc (length (mkdir_calls st))
     \<and> dom (working_dir st) = set (mkdir_calls st)
     \<and> (\<forall>i<length (mkdir_calls st). \<exists>k v. mkdir_calls st ! i = segment_name (Suc i) k v)"

text \<open>The name \<open>n\<close> is a segment name built from the ids that some message of \<open>ms\<close>
  decodes to.\<close>

definition names_a_message ::
  "(int \<Rightarrow> error + ('o, 'p) schema_pair) \<Rightarrow> ('p \<Rightarrow> byte list \<Rightarrow> error + 'v option) \<Rightarrow>
     message list \<Rightarrow> string \<Rightarrow> bool" where
  "names_a_message registry reader ms n \<longleftrightarrow>
     (\<exists>m\<in>set ms. \<exists>i k dk v dv.
        decode_result registry reader (m_key m) = Inr (k, dk)
        \<and> decode_result registry reader (m_value m) = Inr (v, dv)
        \<and> n = segment_name i k v)"

text \<open>The message decodes, its key to the schema id \<open>k\<close> and its value to the schema id
  \<open>v\<close>.\<close>

definition decodes_to ::
  "(int \<Rightarrow> error + ('o, 'p) schema_pair) \<Rightarrow> ('p \<Rightarrow> byte list \<Rightarrow> error + 'v option) \<Rightarrow>
     message \<Rightarrow> int \<Rightarrow> int \<Rightarrow> bool" where
  "decodes_to registry reader m k v \<longleftrightarrow>
     (case decode_result registry reader (m_key m) of
        Inl _ \<Rightarrow> False
      | Inr (k', _) \<Rightarrow>
          (case decode_result registry reader (m_value m) of
             Inl _ \<Rightarrow> False
           | Inr (v', _) \<Rightarrow> k' = k \<and> v' = v))"

text \<open>The schema that the reader gets for a schema id: the document of the registry,
  written with \<^verbatim>\<open>json.dumps\<close> and parsed again.\<close>

definition schema_doc ::
  "(int \<Rightarrow> error + ('o, 'p) schema_pair) \<Rightarrow> ('o \<Rightarrow> string) \<Rightarrow> (string \<Rightarrow> error + 's) \<Rightarrow>
     int \<Rightarrow> error + 's" where
  "schema_doc registry dumps load i =
     (case registry i of
        Inl e \<Rightarrow> Inl e
      | Inr sp \<Rightarrow> load (dumps (original_schema sp)))"

text \<open>The current segment is named after the current ids, and its directory holds the
  two documents that the registry has for them.\<close>

definition segment_on_disk ::
  "(int \<Rightarrow> error + ('o, 'p) schema_pair) \<Rightarrow> ('o \<Rightarrow> string) \<Rightarrow> 'v session \<Rightarrow> bool" where
  "segment_on_disk registry dumps st \<longleftrightarrow>
     (\<forall>name. schema_dir_name st = Some name \<longrightarrow>
          (\<exists>n k v ks vs.
             name = segment_name n k v
             \<and> current_key_schema_id st = Some k \<and> current_value_schema_id st = Some v
             \<and> registry k = Inr ks \<and> registry v = Inr vs
             \<and> working_dir st name =
                 Some [''key_schema.avsc'' \<mapsto> dumps (original_schema ks),
                       ''value_schema.avsc'' \<mapsto> dumps (original_schema vs)]))"

text \<open>
  The record \<open>r\<close> is what a call that returns appends for the message \<open>m\<close>: the decoded key
  and value of \<open>m\<close> and the name of a segment with the key schema id \<open>k\<close> of \<open>m\<close> and a
  value schema id \<open>v'\<close>, which is the value schema id of \<open>m\<close> whenever the decoded
  value is present; and the directory of that segment holds the documents that the
  registry has for \<open>k\<close> and \<open>v'\<close>.
\<close>

definition archived_as ::
  "(int \<Rightarrow> error + ('o, 'p) schema_pair) \<Rightarrow> ('p \<Rightarrow> byte list \<Rightarrow> error + 'v option) \<Rightarrow>
     ('o \<Rightarrow> string) \<Rightarrow> (string \<rightharpoonup> (string \<rightharpoonup> string)) \<Rightarrow> message \<Rightarrow> 'v pickled \<Rightarrow> bool" where
  "archived_as registry reader dumps wd m r \<longleftrightarrow>
     (\<exists>k dk v dv n v' ks vs.
        decode_result registry reader (m_key m) = Inr (k, dk)
        \<and> decode_result registry reader (m_value m) = Inr (v, dv)
        \<and> r = \<lparr>r_key = dk, r_value = dv, schema_directory_name = Some (segment_name n k v')\<rparr>
        \<and> (dv \<noteq> None \<longrightarrow> v' = v)
        \<and> registry k = Inr ks \<and> registry v' = Inr vs
        \<and> wd (segment_name n k v') =
             Some [''key_schema.avsc'' \<mapsto> dumps (original_schema ks),
                   ''value_schema.avsc'' \<mapsto> dumps (original_schema vs)])"

text \<open>
  The message \<open>km\<close> is what is read back for the message \<open>m\<close> and its record \<open>r\<close>: the
  decoded key and value of \<open>m\<close>, the key schema of the key schema id of \<open>m\<close>, and the
  value schema of the value schema id \<open>v'\<close> in the name of the segment that \<open>r\<close> carries.
\<close>

definition read_back_as ::
  "(int \<Rightarrow> error + ('o, 'p) schema_pair) \<Rightarrow> ('p \<Rightarrow> byte list \<Rightarrow> error + 'v option) \<Rightarrow>
     ('o \<Rightarrow> string) \<Rightarrow> (string \<Rightarrow> error + 's) \<Rightarrow> message \<Rightarrow> 'v pickled \<Rightarrow>
     ('v, 's) kafka_message \<Rightarrow> bool" where
  "read_back_as registry reader dumps load m r km \<longleftrightarrow>
     (\<exists>k dk v dv n v'.
        decode_result registry reader (m_key m) = Inr (k, dk)
        \<and> decode_result registry reader (m_value m) = Inr (v, dv)
        \<and> k_key km = dk \<and> k_value km = dv
        \<and> schema_directory_name r = Some (segment_name n k v')
        \<and> (dv \<noteq> None \<longrightarrow> v' = v)
        \<and> schema_doc registry dumps load k = Inr (key_schema km)
        \<and> schema_doc registry dumps load v' = Inr (value_schema km))"

subsection \<open>A small registry and a few messages, for the examples\<close>

text \<open>
  The registry knows the schemas 1 to 4 and no other; schema 3 is Avro's
  \<^verbatim>\<open>"null"\<close>, whose only value decodes to \<^verbatim>\<open>None\<close>, and schema 4 is one that the
  Avro decoder reads and whose document the schema parser rejects. Decoded values are
  the body bytes themselves, and schema documents are short strings.
\<close>

definition demo_registry :: "int \<Rightarrow> error + (string, nat) schema_pair" where
  "demo_registry i =
     (if i = 1 then Inr \<lparr>original_schema = ''K1'', parsed_schema = 1\<rparr>
      else if i = 2 then Inr \<lparr>original_schema = ''V2'', parsed_schema = 2\<rparr>
      else if i = 3 then Inr \<lparr>original_schema = ''null'', parsed_schema = 3\<rparr>
      else if i = 4 then Inr \<lparr>original_schema = [], parsed_schema = 4\<rparr>
      else Inl SchemaNotFound)"

definition demo_reader :: "nat \<Rightarrow> byte list \<Rightarrow> error + byte list option" where
  "demo_reader p body = (if p = 3 then Inr None else Inr (Some body))"

definition demo_dumps :: "string \<Rightarrow> string" where
  "demo_dumps doc = doc"

definition demo_load :: "string \<Rightarrow> error + string" where
  "demo_load text = (if text = [] then Inl SchemaParseError else Inr text)"

text \<open>A payload in the wire format: the marker byte 0, the schema id \<open>i\<close> in four
  bytes, and the body.\<close>

definition wire :: "byte \<Rightarrow> byte list \<Rightarrow> byte list" where
  "wire i body = [0, 0, 0, 0, i] @ body"

definition msg_1_2 :: message where
  "msg_1_2 = \<lparr>m_key = Some (wire 1 [7]), m_value = Some (wire 2 [8])\<rparr>"

definition msg_1_3 :: message where
  "msg_1_3 = \<lparr>m_key = Some (wire 1 [7]), m_value = Some (wire 3 [])\<rparr>"

definition msg_1_tombstone :: message where
  "msg_1_tombstone = \<lparr>m_key = Some (wire 1 [7]), m_value = None\<rparr>"

definition msg_nokey_2 :: message where
  "msg_nokey_2 = \<lparr>m_key = None, m_value = Some (wire 2 [8])\<rparr>"

text \<open>A key whose schema the registry does not know, and a value of two bytes.\<close>

definition msg_9_short :: message where
  "msg_9_short = \<lparr>m_key = Some (wire 9 []), m_value = Some [0, 0]\<rparr>"

text \<open>A message whose value has schema 4.\<close>

definition msg_1_4 :: message where
  "msg_1_4 = \<lparr>m_key = Some (wire 1 [7]), m_value = Some (wire 4 [8])\<rparr>"

text \<open>A message whose key, too, has schema 2.\<close>

definition msg_2_2 :: message where
  "msg_2_2 = \<lparr>m_key = Some (wire 2 [7]), m_value = Some (wire 2 [8])\<rparr>"

section \<open>Properties\<close>

subsection \<open>The wire header\<close>

lemma be_uint_4:
  "be_uint [b1, b2, b3, b4] = uint b1 * 2 ^ 24 + uint b2 * 2 ^ 16 + uint b3 * 2 ^ 8 + uint b4"
  by (simp add: be_uint_def)

lemma uint_byte_bounds: "0 \<le> uint (b :: byte)" "uint (b :: byte) \<le> 255"
  using uint_lt2p [of b] by simp_all

lemma be_uint_4_bounds: "0 \<le> be_uint [b1, b2, b3, b4]" "be_uint [b1, b2, b3, b4] < 2 ^ 32"
  using uint_byte_bounds [of b1] uint_byte_bounds [of b2]
    uint_byte_bounds [of b3] uint_byte_bounds [of b4]
  by (simp_all add: be_uint_4)

lemma length_5_cases:
  assumes "5 \<le> length (xs :: 'a list)"
  obtains m b1 b2 b3 b4 rest where "xs = m # b1 # b2 # b3 # b4 # rest"
proof -
  from assms obtain m x1 where 1: "xs = m # x1" "4 \<le> length x1" by (cases xs) auto
  then obtain b1 x2 where 2: "x1 = b1 # x2" "3 \<le> length x2" by (cases x1) auto
  then obtain b2 x3 where 3: "x2 = b2 # x3" "2 \<le> length x3" by (cases x2) auto
  then obtain b3 x4 where 4: "x3 = b3 # x4" "1 \<le> length x4" by (cases x3) auto
  then obtain b4 rest where 5: "x4 = b4 # rest" by (cases x4) auto
  from 1 2 3 4 5 that show thesis by simp
qed

lemma unpack_bI_short: "length bs < 5 \<Longrightarrow> unpack_bI bs = Inl StructError"
  by (induction bs rule: unpack_bI.induct) simp_all

lemma extract_schema_id_short:
  "length message < 5 \<Longrightarrow> extract_schema_id message = Inl StructError"
  by (simp add: extract_schema_id_def unpack_bI_short)

lemma extract_schema_id_Cons5:
  "extract_schema_id (m # b1 # b2 # b3 # b4 # rest) = Inr (be_uint [b1, b2, b3, b4])"
  by (simp add: extract_schema_id_def)

lemma extract_schema_id_take5: "extract_schema_id (take 5 message) = extract_schema_id message"
  by (simp add: extract_schema_id_def)

lemma extract_schema_id_range:
  assumes "extract_schema_id message = Inr i"
  shows "0 \<le> i \<and> i < 2 ^ 32"
proof (cases "5 \<le> length message")
  case True
  then obtain m b1 b2 b3 b4 rest where "message = m # b1 # b2 # b3 # b4 # rest"
    by (rule length_5_cases)
  with assms have "i = be_uint [b1, b2, b3, b4]" by (simp add: extract_schema_id_Cons5)
  then show ?thesis using be_uint_4_bounds [of b1 b2 b3 b4] by simp
next
  case False
  with assms show ?thesis by (simp add: extract_schema_id_short)
qed

subsection \<open>What one call of \<open>decode_bytes\<close> does\<close>

lemma decode_bytes_snd:
  "snd (decode_bytes registry reader raw_data st) =
     st\<lparr>resolver_calls := resolver_calls st @ header_ids raw_data\<rparr>"
  by (simp add: decode_bytes_def header_ids_def get_schema_from_id_def
      split: option.splits sum.splits prod.splits)

lemma decode_bytes_fst:
  "fst (decode_bytes registry reader raw_data st) = decode_result registry reader raw_data"
  by (simp add: decode_result_def decode_bytes_def get_schema_from_id_def
      split: option.splits sum.splits prod.splits)

lemma decode_bytes_eq:
  "decode_bytes registry reader raw_data st =
     (decode_result registry reader raw_data,
      st\<lparr>resolver_calls := resolver_calls st @ header_ids raw_data\<rparr>)"
  by (metis decode_bytes_fst decode_bytes_snd prod.collapse)

lemma decode_result_None: "decode_result registry reader None = Inr (- 1, None)"
  by (simp add: decode_result_def decode_bytes_def)

lemma decode_result_Some:
  "decode_result registry reader (Some raw) =
     (case extract_schema_id raw of
        Inl e \<Rightarrow> Inl e
      | Inr i \<Rightarrow>
          (case registry i of
             Inl e \<Rightarrow> Inl e
           | Inr sp \<Rightarrow>
               (case reader (parsed_schema sp) (drop 5 raw) of
                  Inl e \<Rightarrow> Inl e
                | Inr record \<Rightarrow> Inr (i, record))))"
  by (simp add: decode_result_def decode_bytes_def get_schema_from_id_def extract_schema_id_take5
      split: sum.splits)

lemma decode_result_id_range:
  assumes "decode_result registry reader raw_data = Inr (i, record)"
  shows "- 1 \<le> i \<and> i < 2 ^ 32 \<and> (i = - 1 \<longleftrightarrow> raw_data = None)"
proof (cases raw_data)
  case None
  with assms show ?thesis by (simp add: decode_result_None)
next
  case (Some raw)
  with assms have "extract_schema_id raw = Inr i"
    by (auto simp: decode_result_Some split: sum.splits)
  then have "0 \<le> i \<and> i < 2 ^ 32" by (rule extract_schema_id_range)
  with Some show ?thesis by simp
qed

subsection \<open>What one call of \<open>write_message_to_file\<close> does, by the results of decoding\<close>

lemma write_key_fails:
  assumes "decode_result registry reader (m_key m) = Inl e"
  shows "write_message_to_file registry reader dumps st m =
     (Some e, st\<lparr>resolver_calls := resolver_calls st @ header_ids (m_key m)\<rparr>)"
  using assms by (simp add: write_message_to_file_def decode_bytes_eq)

lemma write_value_fails:
  assumes "decode_result registry reader (m_key m) = Inr (k, dk)"
    and "decode_result registry reader (m_value m) = Inl e"
  shows "write_message_to_file registry reader dumps st m =
     (Some e, st\<lparr>resolver_calls := resolver_calls st @ header_ids (m_key m) @ header_ids (m_value m)\<rparr>)"
  using assms by (simp add: write_message_to_file_def decode_bytes_eq)

lemma write_same_segment:
  assumes "decode_result registry reader (m_key m) = Inr (k, dk)"
    and "decode_result registry reader (m_value m) = Inr (v, dv)"
    and "\<not> trigger st k v dv"
  shows "write_message_to_file registry reader dumps st m =
     (None, st\<lparr>resolver_calls := resolver_calls st @ header_ids (m_key m) @ header_ids (m_value m),
               out_file := out_file st @
                 [\<lparr>r_key = dk, r_value = dv, schema_directory_name = schema_dir_name st\<rparr>]\<rparr>)"
  using assms
  by (auto simp: write_message_to_file_def decode_bytes_eq schema_changed_def trigger_def)

lemma write_new_segment:
  assumes "decode_result registry reader (m_key m) = Inr (k, dk)"
    and "decode_result registry reader (m_value m) = Inr (v, dv)"
    and "trigger st k v dv"
  shows "write_message_to_file registry reader dumps st m =
     (case open_segment registry dumps k v
             (st\<lparr>resolver_calls := resolver_calls st @ header_ids (m_key m) @ header_ids (m_value m)\<rparr>) of
        (Some e, st3) \<Rightarrow> (Some e, st3)
      | (None, st3) \<Rightarrow>
          (None, st3\<lparr>out_file := out_file st3 @
             [\<lparr>r_key = dk, r_value = dv, schema_directory_name = schema_dir_name st3\<rparr>]\<rparr>))"
  using assms
  by (auto simp: write_message_to_file_def decode_bytes_eq schema_changed_def trigger_def)

subsection \<open>Opening a segment\<close>

lemma open_segment_exists:
  assumes "working_dir st (segment_name (schema_version st) k v) \<noteq> None"
  shows "open_segment registry dumps k v st = (Some FileExistsError, opened st k v)"
  using assms by (auto simp: open_segment_def mkdir_def opened_def Let_def)

lemma open_segment_fresh:
  assumes "working_dir st (segment_name (schema_version st) k v) = None"
  shows "open_segment registry dumps k v st =
     (let name = segment_name (schema_version st) k v;
          st1 = (opened st k v)\<lparr>mkdir_calls := mkdir_calls st @ [name]\<rparr>
      in case registry k of
           Inl e \<Rightarrow>
             (Some e, st1\<lparr>working_dir := (working_dir st)(name \<mapsto> Map.empty),
                          resolver_calls := resolver_calls st @ [k]\<rparr>)
         | Inr ks \<Rightarrow>
             (case registry v of
                Inl e \<Rightarrow>
                  (Some e, st1\<lparr>working_dir := (working_dir st)(name \<mapsto>
                                  [''key_schema.avsc'' \<mapsto> dumps (original_schema ks)]),
                               resolver_calls := resolver_calls st @ [k, v]\<rparr>)
              | Inr vs \<Rightarrow>
                  (None, st1\<lparr>working_dir := (working_dir st)(name \<mapsto>
                                  [''key_schema.avsc'' \<mapsto> dumps (original_schema ks),
                                   ''value_schema.avsc'' \<mapsto> dumps (original_schema vs)]),
                             resolver_calls := resolver_calls st @ [k, v]\<rparr>)))"
  using assms
  by (simp add: open_segment_def mkdir_def opened_def Let_def get_schema_from_id_def write_text_def
      split: sum.splits)

subsection \<open>The number in a segment name\<close>

lemma of_char_digit_char: "d < 10 \<Longrightarrow> of_char (digit_char d) = (48 + d :: nat)"
  by (simp add: digit_char_def)

lemma digit_char_not_underscore: "d < 10 \<Longrightarrow> digit_char d \<noteq> CHR ''_''"
proof
  assume "d < 10" and "digit_char d = CHR ''_''"
  then have "(48 + d :: nat) = of_char (CHR ''_'')" using of_char_digit_char [of d] by simp
  with \<open>d < 10\<close> show False by simp
qed

lemma str_nat_digits: "c \<in> set (str_nat n) \<Longrightarrow> \<exists>d<10. c = digit_char d"
proof (induction n arbitrary: c rule: str_nat.induct)
  case (1 n)
  show ?case
  proof (cases "n < 10")
    case True
    with "1.prems" show ?thesis by (auto simp: str_nat.simps [of n])
  next
    case False
    with "1.prems" have "c \<in> set (str_nat (n div 10)) \<or> c = digit_char (n mod 10)"
      by (auto simp: str_nat.simps [of n])
    then show ?thesis
    proof
      assume "c \<in> set (str_nat (n div 10))"
      with False show ?thesis by (simp add: "1.IH")
    next
      assume "c = digit_char (n mod 10)"
      moreover have "n mod 10 < 10" by simp
      ultimately show ?thesis by blast
    qed
  qed
qed

lemma dec_val_append1: "dec_val (s @ [c]) = 10 * dec_val s + (of_char c - 48)"
  by (simp add: dec_val_def)

lemma dec_val_str_nat: "dec_val (str_nat n) = n"
proof (induction n rule: str_nat.induct)
  case (1 n)
  show ?case
  proof (cases "n < 10")
    case True
    then show ?thesis by (simp add: str_nat.simps [of n] dec_val_def of_char_digit_char)
  next
    case False
    then have "dec_val (str_nat (n div 10)) = n div 10" by (rule "1.IH")
    with False show ?thesis
      by (simp add: str_nat.simps [of n] dec_val_append1 of_char_digit_char)
  qed
qed

lemma dec_val_zeros: "dec_val (replicate j CHR ''0'' @ s) = dec_val s"
proof -
  have "foldl (\<lambda>a c. 10 * a + (of_char c - 48)) 0 (replicate j CHR ''0'') = (0::nat)"
    by (induction j) simp_all
  then show ?thesis by (simp add: dec_val_def)
qed

lemma dec_val_format_04: "dec_val (format_04 n) = n"
  by (simp add: format_04_def dec_val_zeros dec_val_str_nat)

lemma format_04_no_underscore: "c \<in> set (format_04 n) \<Longrightarrow> c \<noteq> CHR ''_''"
proof -
  assume "c \<in> set (format_04 n)"
  then have "c = CHR ''0'' \<or> c \<in> set (str_nat n)" by (auto simp: format_04_def)
  then show ?thesis
  proof
    assume "c = CHR ''0''" then show ?thesis by simp
  next
    assume "c \<in> set (str_nat n)"
    then obtain d where "d < 10" "c = digit_char d" using str_nat_digits by blast
    then show ?thesis by (simp add: digit_char_not_underscore)
  qed
qed

lemma length_format_04: "4 \<le> length (format_04 n)"
  by (simp add: format_04_def)

lemma takeWhile_segment_name:
  "takeWhile (\<lambda>c. c \<noteq> CHR ''_'') (segment_name n k v) = format_04 n"
proof -
  have "takeWhile (\<lambda>c. c \<noteq> CHR ''_'') (format_04 n @ CHR ''_'' # (str_int k @ ''_'' @ str_int v))
          = format_04 n"
    using format_04_no_underscore [of _ n] by (simp add: takeWhile_append2)
  then show ?thesis by (simp add: segment_name_def)
qed

lemma segment_name_inj: "segment_name a k v = segment_name b k' v' \<Longrightarrow> a = b"
proof -
  assume "segment_name a k v = segment_name b k' v'"
  then have "format_04 a = format_04 b"
    by (metis takeWhile_segment_name)
  then show "a = b" by (metis dec_val_format_04)
qed

text \<open>A segment name determines its number and both ids.\<close>

lemma digit_char_not_minus: "d < 10 \<Longrightarrow> digit_char d \<noteq> CHR ''-''"
proof
  assume "d < 10" and "digit_char d = CHR ''-''"
  then have "(48 + d :: nat) = of_char (CHR ''-'')" using of_char_digit_char [of d] by simp
  then show False by simp
qed

lemma str_nat_no_minus: "CHR ''-'' \<notin> set (str_nat n)"
proof
  assume "CHR ''-'' \<in> set (str_nat n)"
  from str_nat_digits [OF this] obtain d where d: "d < 10" and c: "CHR ''-'' = digit_char d"
    by auto
  from digit_char_not_minus [OF d] c show False by simp
qed

lemma str_nat_no_underscore: "CHR ''_'' \<notin> set (str_nat n)"
proof
  assume "CHR ''_'' \<in> set (str_nat n)"
  from str_nat_digits [OF this] obtain d where d: "d < 10" and c: "CHR ''_'' = digit_char d"
    by auto
  from digit_char_not_underscore [OF d] c show False by simp
qed

lemma str_nat_inj:
  assumes "str_nat a = str_nat b"
  shows "a = b"
proof -
  from assms have "dec_val (str_nat a) = dec_val (str_nat b)" by (rule arg_cong)
  then show ?thesis by (simp only: dec_val_str_nat)
qed

lemma str_int_no_underscore:
  assumes "c \<in> set (str_int i)"
  shows "c \<noteq> CHR ''_''"
proof
  assume "c = CHR ''_''"
  with assms have "CHR ''_'' \<in> set (str_nat (nat (- i))) \<or> CHR ''_'' \<in> set (str_nat (nat i))"
    by (simp add: str_int_def split: if_splits)
  then show False by (simp add: str_nat_no_underscore)
qed

lemma str_int_inj:
  assumes "str_int i = str_int j"
  shows "i = j"
proof (cases "i < 0"; cases "j < 0")
  assume "i < 0" "j < 0"
  with assms have "str_nat (nat (- i)) = str_nat (nat (- j))" by (simp add: str_int_def)
  then have "nat (- i) = nat (- j)" by (rule str_nat_inj)
  with \<open>i < 0\<close> \<open>j < 0\<close> show ?thesis by simp
next
  assume "i < 0" "\<not> j < 0"
  with assms have "CHR ''-'' # str_nat (nat (- i)) = str_nat (nat j)" by (simp add: str_int_def)
  then have "set (CHR ''-'' # str_nat (nat (- i))) = set (str_nat (nat j))" by (rule arg_cong)
  then have "CHR ''-'' \<in> set (str_nat (nat j))" by auto
  then show ?thesis by (simp add: str_nat_no_minus)
next
  assume "\<not> i < 0" "j < 0"
  with assms have "str_nat (nat i) = CHR ''-'' # str_nat (nat (- j))" by (simp add: str_int_def)
  then have "set (str_nat (nat i)) = set (CHR ''-'' # str_nat (nat (- j)))" by (rule arg_cong)
  then have "CHR ''-'' \<in> set (str_nat (nat i))" by auto
  then show ?thesis by (simp add: str_nat_no_minus)
next
  assume "\<not> i < 0" "\<not> j < 0"
  with assms have "str_nat (nat i) = str_nat (nat j)" by (simp add: str_int_def)
  then have "nat i = nat j" by (rule str_nat_inj)
  with \<open>\<not> i < 0\<close> \<open>\<not> j < 0\<close> show ?thesis by simp
qed

lemma segment_name_inj_ids:
  assumes "segment_name a k v = segment_name b k' v'"
  shows "a = b \<and> k = k' \<and> v = v'"
proof -
  from assms have ab: "a = b" by (rule segment_name_inj)
  with assms have tail: "str_int k @ CHR ''_'' # str_int v = str_int k' @ CHR ''_'' # str_int v'"
    by (simp add: segment_name_def)
  have t: "takeWhile (\<lambda>c. c \<noteq> CHR ''_'') (str_int i @ CHR ''_'' # rest) = str_int i" for i rest
    using str_int_no_underscore [of _ i] by (simp add: takeWhile_append2)
  from tail have "takeWhile (\<lambda>c. c \<noteq> CHR ''_'') (str_int k @ CHR ''_'' # str_int v)
      = takeWhile (\<lambda>c. c \<noteq> CHR ''_'') (str_int k' @ CHR ''_'' # str_int v')"
    by (rule arg_cong)
  then have "str_int k = str_int k'" by (simp only: t)
  then have kk: "k = k'" by (rule str_int_inj)
  with tail have "str_int v = str_int v'" by simp
  then have "v = v'" by (rule str_int_inj)
  with ab kk show ?thesis by simp
qed

subsection \<open>The invariant of a session\<close>

lemma session_inv_new: "session_inv new_session"
  by (simp add: session_inv_def new_session_def)

lemma session_inv_fresh:
  assumes "session_inv st"
  shows "segment_name (schema_version st) k v \<notin> set (mkdir_calls st)"
    and "working_dir st (segment_name (schema_version st) k v) = None"
proof -
  show 1: "segment_name (schema_version st) k v \<notin> set (mkdir_calls st)"
  proof
    assume "segment_name (schema_version st) k v \<in> set (mkdir_calls st)"
    then obtain i where i: "i < length (mkdir_calls st)"
      and "mkdir_calls st ! i = segment_name (schema_version st) k v"
      by (auto simp: in_set_conv_nth)
    moreover from assms i obtain k' v' where "mkdir_calls st ! i = segment_name (Suc i) k' v'"
      by (auto simp: session_inv_def)
    ultimately have "schema_version st = Suc i" by (metis segment_name_inj)
    with assms i show False by (simp add: session_inv_def)
  qed
  from assms have "dom (working_dir st) = set (mkdir_calls st)" by (simp add: session_inv_def)
  with 1 show "working_dir st (segment_name (schema_version st) k v) = None" by blast
qed

lemma session_inv_resolver_calls [simp]:
  "session_inv (st\<lparr>resolver_calls := cs\<rparr>) = session_inv st"
  by (simp add: session_inv_def)

lemma session_inv_out_file [simp]:
  "session_inv (st\<lparr>out_file := rs\<rparr>) = session_inv st"
  by (simp add: session_inv_def)

text \<open>What opening a segment does to a session that satisfies the invariant.\<close>

lemma open_segment_inv:
  assumes "session_inv st" and "open_segment registry dumps k v st = (r, st')"
  shows "schema_dir_name st' = Some (segment_name (schema_version st) k v)"
    and "schema_version st' = Suc (schema_version st)"
    and "current_key_schema_id st' = Some k"
    and "current_value_schema_id st' = Some v"
    and "mkdir_calls st' = mkdir_calls st @ [segment_name (schema_version st) k v]"
    and "dom (working_dir st') = insert (segment_name (schema_version st) k v) (dom (working_dir st))"
    and "out_file st' = out_file st"
    and "n \<noteq> segment_name (schema_version st) k v \<Longrightarrow> working_dir st' n = working_dir st n"
  using assms(2) open_segment_fresh [OF session_inv_fresh(2) [OF assms(1)], where k = k and v = v and registry = registry and dumps = dumps]
  by (auto simp: Let_def opened_def split: sum.splits)

lemma open_segment_keeps_inv:
  assumes "session_inv st" and "open_segment registry dumps k v st = (r, st')"
  shows "session_inv st'"
proof -
  note e = open_segment_inv [OF assms]
  from assms(1) have a: "schema_version st = Suc (length (mkdir_calls st))"
    and b: "dom (working_dir st) = set (mkdir_calls st)"
    and c: "\<forall>i<length (mkdir_calls st). \<exists>k v. mkdir_calls st ! i = segment_name (Suc i) k v"
    by (simp_all add: session_inv_def)
  have "\<exists>k' v'. mkdir_calls st' ! i = segment_name (Suc i) k' v'" if "i < length (mkdir_calls st')" for i
  proof (cases "i < length (mkdir_calls st)")
    case True
    with c show ?thesis by (simp add: e(5) nth_append)
  next
    case False
    with that have "i = length (mkdir_calls st)" by (simp add: e(5))
    then show ?thesis using a by (auto simp: e(5) nth_append)
  qed
  then show ?thesis using a b by (simp add: session_inv_def e)
qed

lemma write_cases [case_names key_fails value_fails same_segment new_segment]:
  fixes registry :: "int \<Rightarrow> error + ('o, 'p) schema_pair"
    and reader :: "'p \<Rightarrow> byte list \<Rightarrow> error + 'v option"
    and st :: "'v session"
  obtains e where "decode_result registry reader (m_key m) = Inl e"
  | k dk e where "decode_result registry reader (m_key m) = Inr (k, dk)"
      and "decode_result registry reader (m_value m) = Inl e"
  | k dk v dv where "decode_result registry reader (m_key m) = Inr (k, dk)"
      and "decode_result registry reader (m_value m) = Inr (v, dv)"
      and "\<not> trigger st k v dv"
  | k dk v dv where "decode_result registry reader (m_key m) = Inr (k, dk)"
      and "decode_result registry reader (m_value m) = Inr (v, dv)"
      and "trigger st k v dv"
proof (cases "decode_result registry reader (m_key m)")
  case (Inl e)
  then show thesis by (rule that(1))
next
  case key: (Inr a)
  obtain k dk where a: "a = (k, dk)" by (cases a)
  show thesis
  proof (cases "decode_result registry reader (m_value m)")
    case (Inl e)
    with key a show thesis by (simp add: that(2))
  next
    case (Inr b)
    obtain v dv where b: "b = (v, dv)" by (cases b)
    show thesis
    proof (cases "trigger st k v dv")
      case True
      with key a Inr b show thesis by (simp add: that(4))
    next
      case False
      with key a Inr b show thesis by (simp add: that(3))
    qed
  qed
qed

lemma write_step:
  fixes registry :: "int \<Rightarrow> error + ('o, 'p) schema_pair"
    and reader :: "'p \<Rightarrow> byte list \<Rightarrow> error + 'v option"
    and st :: "'v session" and dumps :: "'o \<Rightarrow> string" and m :: message
  assumes inv: "session_inv st"
  defines "st' \<equiv> snd (write_message_to_file registry reader dumps st m)"
  shows "session_inv st'"
    and "same_segment_state st st' \<or>
      (\<exists>k dk v dv. decode_result registry reader (m_key m) = Inr (k, dk)
         \<and> decode_result registry reader (m_value m) = Inr (v, dv)
         \<and> trigger st k v dv
         \<and> mkdir_calls st' = mkdir_calls st @ [segment_name (schema_version st) k v])"
proof -
  have "session_inv st' \<and> (same_segment_state st st' \<or>
      (\<exists>k dk v dv. decode_result registry reader (m_key m) = Inr (k, dk)
         \<and> decode_result registry reader (m_value m) = Inr (v, dv)
         \<and> trigger st k v dv
         \<and> mkdir_calls st' = mkdir_calls st @ [segment_name (schema_version st) k v]))"
  proof (cases rule: write_cases [where registry = registry and reader = reader and m = m and st = st])
    case (key_fails e)
    then show ?thesis using inv
      by (simp add: st'_def write_key_fails same_segment_state_def)
  next
    case (value_fails k dk e)
    then show ?thesis using inv
      by (simp add: st'_def write_value_fails same_segment_state_def)
  next
    case (same_segment k dk v dv)
    then show ?thesis using inv
      by (simp add: st'_def write_same_segment same_segment_state_def)
  next
    case (new_segment k dk v dv)
    let ?st2 = "st\<lparr>resolver_calls := resolver_calls st @ header_ids (m_key m) @ header_ids (m_value m)\<rparr>"
    obtain r st3 where o: "open_segment registry dumps k v ?st2 = (r, st3)"
      by (cases "open_segment registry dumps k v ?st2")
    have inv2: "session_inv ?st2" using inv by simp
    note e = open_segment_inv [OF inv2 o] open_segment_keeps_inv [OF inv2 o]
    have "st' = st3 \<or> (\<exists>rs. st' = st3\<lparr>out_file := rs\<rparr>)"
      using new_segment o by (cases r) (auto simp: st'_def write_new_segment)
    then have "session_inv st'"
      and "mkdir_calls st' = mkdir_calls st @ [segment_name (schema_version st) k v]"
      using e by auto
    with new_segment show ?thesis by blast
  qed
  then show "session_inv st'"
    and "same_segment_state st st' \<or>
      (\<exists>k dk v dv. decode_result registry reader (m_key m) = Inr (k, dk)
         \<and> decode_result registry reader (m_value m) = Inr (v, dv)
         \<and> trigger st k v dv
         \<and> mkdir_calls st' = mkdir_calls st @ [segment_name (schema_version st) k v])"
    by simp_all
qed

lemma write_each_inv:
  "session_inv st \<Longrightarrow> session_inv (write_each registry reader dumps st ms)"
  by (induction ms arbitrary: st) (simp_all add: write_step(1))

subsection \<open>Decoding a payload\<close>

text \<open>
  Claim C8. For an absent payload \<open>decode_bytes\<close> returns the id \<open>-1\<close> and no value, and
  the session, the calls of the registry with it, is untouched. For a payload of at
  least five bytes, the id that is passed to the registry and returned is the big-endian
  unsigned number in the bytes 1 to 4, a number from 0 to \<open>2^32 - 1\<close>, and the Avro
  decoder is given exactly the bytes after byte 4.
\<close>

theorem decode_bytes_wire_format:
  "decode_bytes registry reader None st = (Inr (- 1, None), st)
   \<and> decode_bytes registry reader (Some (m # b1 # b2 # b3 # b4 # body)) st =
       (let schema_id = uint b1 * 2 ^ 24 + uint b2 * 2 ^ 16 + uint b3 * 2 ^ 8 + uint b4;
            st1 = st\<lparr>resolver_calls := resolver_calls st @ [schema_id]\<rparr>
        in case registry schema_id of
             Inl e \<Rightarrow> (Inl e, st1)
           | Inr sp \<Rightarrow>
               (case reader (parsed_schema sp) body of
                  Inl e \<Rightarrow> (Inl e, st1)
                | Inr record \<Rightarrow> (Inr (schema_id, record), st1)))
   \<and> 0 \<le> uint b1 * 2 ^ 24 + uint b2 * 2 ^ 16 + uint b3 * 2 ^ 8 + uint b4
   \<and> uint b1 * 2 ^ 24 + uint b2 * 2 ^ 16 + uint b3 * 2 ^ 8 + uint b4 < (2 ^ 32 :: int)"
proof -
  have absent: "decode_bytes registry reader None st = (Inr (- 1, None), st)"
    by (simp add: decode_bytes_def)
  have present: "decode_bytes registry reader (Some (m # b1 # b2 # b3 # b4 # body)) st =
       (let schema_id = uint b1 * 2 ^ 24 + uint b2 * 2 ^ 16 + uint b3 * 2 ^ 8 + uint b4;
            st1 = st\<lparr>resolver_calls := resolver_calls st @ [schema_id]\<rparr>
        in case registry schema_id of
             Inl e \<Rightarrow> (Inl e, st1)
           | Inr sp \<Rightarrow>
               (case reader (parsed_schema sp) body of
                  Inl e \<Rightarrow> (Inl e, st1)
                | Inr record \<Rightarrow> (Inr (schema_id, record), st1)))"
    by (simp add: decode_bytes_def extract_schema_id_Cons5 [simplified] extract_schema_id_def
        be_uint_4 get_schema_from_id_def Let_def split: sum.splits)
  have "0 \<le> be_uint [b1, b2, b3, b4]" and "be_uint [b1, b2, b3, b4] < 2 ^ 32"
    by (rule be_uint_4_bounds)+
  then have range: "0 \<le> uint b1 * 2 ^ 24 + uint b2 * 2 ^ 16 + uint b3 * 2 ^ 8 + uint b4"
      "uint b1 * 2 ^ 24 + uint b2 * 2 ^ 16 + uint b3 * 2 ^ 8 + uint b4 < (2 ^ 32 :: int)"
    by (simp_all only: be_uint_4)
  from absent present range show ?thesis by (intro conjI)
qed

text \<open>
  Claim C10. Byte 0 of a payload of at least five bytes is not looked at: the header
  decodes to the id in the bytes 1 to 4 whatever byte 0 is, and \<open>decode_bytes\<close> returns the
  same result and the same session for any two payloads that differ in byte 0 only.
\<close>

theorem format_marker_ignored:
  "extract_schema_id (m # b1 # b2 # b3 # b4 # body) = Inr (be_uint [b1, b2, b3, b4])
   \<and> decode_bytes registry reader (Some (m # b1 # b2 # b3 # b4 # body)) st =
       decode_bytes registry reader (Some (m' # b1 # b2 # b3 # b4 # body)) st"
  by (simp add: decode_bytes_def extract_schema_id_def get_schema_from_id_def split: sum.splits)

subsection \<open>When a segment is opened\<close>

text \<open>
  Claim C1. Take a call of \<open>write_message_to_file\<close> whose key decodes to the id \<open>k\<close> and
  whose value decodes to the id \<open>v\<close> and the value \<open>dv\<close>. The call opens a new segment
  (the counter advances, and the directory name and the current ids are those of the
  message) if and only if there is no segment yet, or \<open>k\<close> is not the current key schema
  id, or \<open>v\<close> is not the current value schema id and \<open>dv\<close> is present; otherwise the
  attributes of the writer, the working directory and the directories made are as
  before. When a segment is opened and its name is free in the working directory, the
  directory is made. A tombstone (no value payload) that comes when a segment exists and
  the key schema id is the current one opens none.
\<close>

theorem new_segment_iff:
  fixes registry :: "int \<Rightarrow> error + ('o, 'p) schema_pair"
    and reader :: "'p \<Rightarrow> byte list \<Rightarrow> error + 'v option"
    and st :: "'v session"
  assumes key: "decode_result registry reader (m_key m) = Inr (k, dk)"
    and val: "decode_result registry reader (m_value m) = Inr (v, dv)"
  shows "let st' = snd (write_message_to_file registry reader dumps st m);
             name = segment_name (schema_version st) k v;
             fork = (schema_dir_name st = None \<or> current_key_schema_id st \<noteq> Some k
                      \<or> (current_value_schema_id st \<noteq> Some v \<and> dv \<noteq> None))
         in ((schema_version st' = Suc (schema_version st) \<and> schema_dir_name st' = Some name
               \<and> current_key_schema_id st' = Some k \<and> current_value_schema_id st' = Some v)
              \<longleftrightarrow> fork)
          \<and> (same_segment_state st st' \<longleftrightarrow> \<not> fork)
          \<and> (fork \<and> working_dir st name = None \<longrightarrow>
                mkdir_calls st' = mkdir_calls st @ [name] \<and> working_dir st' name \<noteq> None)
          \<and> (m_value m = None \<and> schema_dir_name st \<noteq> None \<and> current_key_schema_id st = Some k
                \<longrightarrow> same_segment_state st st')"
proof -
  define st' where "st' = snd (write_message_to_file registry reader dumps st m)"
  define name where "name = segment_name (schema_version st) k v"
  let ?st2 = "st\<lparr>resolver_calls := resolver_calls st @ header_ids (m_key m) @ header_ids (m_value m)\<rparr>"
  have tomb: "dv = None" if "m_value m = None"
    using that val by (simp add: decode_result_None)
  show ?thesis
  proof (cases "trigger st k v dv")
    case False
    then have "st' = st\<lparr>resolver_calls := resolver_calls st @ header_ids (m_key m) @ header_ids (m_value m),
               out_file := out_file st @
                 [\<lparr>r_key = dk, r_value = dv, schema_directory_name = schema_dir_name st\<rparr>]\<rparr>"
      by (simp add: st'_def write_same_segment [OF key val])
    then have same: "same_segment_state st st'" by (simp add: same_segment_state_def)
    then have "schema_version st' \<noteq> Suc (schema_version st)" by (simp add: same_segment_state_def)
    with same False show ?thesis
      unfolding Let_def st'_def [symmetric] name_def [symmetric] by (auto simp: trigger_def)
  next
    case True
    obtain r st3 where o: "open_segment registry dumps k v ?st2 = (r, st3)"
      by (cases "open_segment registry dumps k v ?st2")
    have st': "st' = st3 \<or> (\<exists>rs. st' = st3\<lparr>out_file := rs\<rparr>)"
      using True o by (cases r) (auto simp: st'_def write_new_segment [OF key val])
    have fields: "schema_version st3 = Suc (schema_version st)" "schema_dir_name st3 = Some name"
      "current_key_schema_id st3 = Some k" "current_value_schema_id st3 = Some v"
      using o open_segment_exists [of ?st2 k v registry dumps] open_segment_fresh [of ?st2 k v registry dumps]
      by (cases "working_dir st name = None"; auto simp: name_def opened_def Let_def split: sum.splits)+
    have fresh: "mkdir_calls st3 = mkdir_calls st @ [name] \<and> working_dir st3 name \<noteq> None"
      if "working_dir st name = None"
      using that o open_segment_fresh [of ?st2 k v registry dumps]
      by (auto simp: name_def opened_def Let_def split: sum.splits)
    from st' fields have a: "schema_version st' = Suc (schema_version st)" "schema_dir_name st' = Some name"
      "current_key_schema_id st' = Some k" "current_value_schema_id st' = Some v"
      by auto
    from a(1) have b: "\<not> same_segment_state st st'" by (simp add: same_segment_state_def)
    from st' fresh have c: "working_dir st name = None \<longrightarrow>
        mkdir_calls st' = mkdir_calls st @ [name] \<and> working_dir st' name \<noteq> None"
      by auto
    have d: "\<not> (m_value m = None \<and> schema_dir_name st \<noteq> None \<and> current_key_schema_id st = Some k)"
      using True tomb by (auto simp: trigger_def)
    from True a b c d show ?thesis
      unfolding Let_def st'_def [symmetric] name_def [symmetric] by (simp add: trigger_def)
  qed
qed

theorem new_segment_iff_witness:
  "decode_result demo_registry demo_reader (m_key msg_1_tombstone) = Inr (1, Some [7])
   \<and> decode_result demo_registry demo_reader (m_value msg_1_tombstone) = Inr (- 1, None)
   \<and> same_segment_state
        (snd (write_message_to_file demo_registry demo_reader demo_dumps new_session msg_1_2))
        (snd (write_message_to_file demo_registry demo_reader demo_dumps
           (snd (write_message_to_file demo_registry demo_reader demo_dumps new_session msg_1_2))
           msg_1_tombstone))"
proof -
  let ?st = "snd (write_message_to_file demo_registry demo_reader demo_dumps new_session msg_1_2)
               :: byte list session"
  have key: "decode_result demo_registry demo_reader (m_key msg_1_tombstone) = Inr (1, Some [7])"
    by code_simp
  have val: "decode_result demo_registry demo_reader (m_value msg_1_tombstone) = Inr (- 1, None)"
    by code_simp
  have tomb: "m_value msg_1_tombstone = None"
    by (simp add: msg_1_tombstone_def)
  have name: "schema_dir_name ?st \<noteq> None"
    by code_simp
  have cur: "current_key_schema_id ?st = Some 1"
    by code_simp
  from new_segment_iff [OF key val, of demo_dumps ?st] tomb name cur
  have "same_segment_state ?st
     (snd (write_message_to_file demo_registry demo_reader demo_dumps ?st msg_1_tombstone))"
    unfolding Let_def by blast
  with key val show ?thesis by (intro conjI)
qed

subsection \<open>Payloads shorter than the header\<close>

lemma decode_result_short:
  "length raw < 5 \<Longrightarrow> decode_result registry reader (Some raw) = Inl StructError"
  by (simp add: decode_result_Some extract_schema_id_short)

text \<open>
  Claim C5, as stated, fails on the kind of the error. The key is decoded before the
  value: when the value is the short payload and decoding the key raises first, the
  error of the call is that of the key. Here the value has two bytes, the registry does
  not know the schema 9 of the key, and the call raises \<open>SchemaNotFound\<close>.
\<close>

theorem short_payload_not_always_struct_error:
  "m_value msg_9_short = Some [0, 0] \<and> length [0 :: byte, 0] < 5
   \<and> fst (write_message_to_file demo_registry demo_reader demo_dumps
             (new_session :: byte list session) msg_9_short) = Some SchemaNotFound"
  by code_simp

text \<open>
  Claim C5, amended. A call whose key or value payload is present and shorter than five
  bytes raises: the error of the key's decoding when that fails, \<open>StructError\<close>
  otherwise, and so \<open>StructError\<close> whenever the key is absent or is itself the short
  payload. No record is appended, and the attributes of the writer, the working
  directory and the directories made are as before the call.
\<close>

theorem short_payload_aborts:
  fixes registry :: "int \<Rightarrow> error + ('o, 'p) schema_pair"
    and reader :: "'p \<Rightarrow> byte list \<Rightarrow> error + 'v option"
    and st :: "'v session"
  assumes short: "(\<exists>raw. m_key m = Some raw \<and> length raw < 5)
                    \<or> (\<exists>raw. m_value m = Some raw \<and> length raw < 5)"
  shows "let res = write_message_to_file registry reader dumps st m in
           fst res = Some (case decode_result registry reader (m_key m) of
                             Inl e \<Rightarrow> e | Inr _ \<Rightarrow> StructError)
           \<and> (m_key m = None \<or> (\<exists>raw. m_key m = Some raw \<and> length raw < 5)
                \<longrightarrow> fst res = Some StructError)
           \<and> out_file (snd res) = out_file st
           \<and> same_segment_state st (snd res)"
proof (cases "decode_result registry reader (m_key m)")
  case (Inl e)
  have "e = StructError" if "m_key m = None \<or> (\<exists>raw. m_key m = Some raw \<and> length raw < 5)"
    using that Inl by (auto simp: decode_result_None decode_result_short)
  then show ?thesis
    by (auto simp: Let_def write_key_fails [OF Inl] Inl same_segment_state_def)
next
  case (Inr a)
  obtain k dk where key: "decode_result registry reader (m_key m) = Inr (k, dk)"
    using Inr by (cases a) simp
  have "\<not> (\<exists>raw. m_key m = Some raw \<and> length raw < 5)"
    using key by (auto simp: decode_result_short)
  with short obtain raw where "m_value m = Some raw" "length raw < 5" by blast
  then have val: "decode_result registry reader (m_value m) = Inl StructError"
    by (simp add: decode_result_short)
  show ?thesis
    by (simp add: Let_def write_value_fails [OF key val] key same_segment_state_def)
qed

theorem short_payload_aborts_witness:
  "((\<exists>raw. m_key msg_9_short = Some raw \<and> length raw < 5)
      \<or> (\<exists>raw. m_value msg_9_short = Some raw \<and> length raw < 5))
   \<and> out_file (snd (write_message_to_file demo_registry demo_reader demo_dumps
                      (new_session :: byte list session) msg_9_short)) = out_file (new_session :: byte list session)
   \<and> same_segment_state (new_session :: byte list session)
        (snd (write_message_to_file demo_registry demo_reader demo_dumps new_session msg_9_short))"
proof -
  have short: "(\<exists>raw. m_key msg_9_short = Some raw \<and> length raw < 5)
      \<or> (\<exists>raw. m_value msg_9_short = Some raw \<and> length raw < 5)"
    by (simp add: msg_9_short_def)
  from short_payload_aborts [OF short, of demo_registry demo_reader demo_dumps "new_session :: byte list session"]
    short
  show ?thesis unfolding Let_def by blast
qed

subsection \<open>The sentinel id \<open>-1\<close>\<close>

text \<open>
  Claim C2 does not hold of the code. \<open>decode_bytes\<close> passes only ids read from a header
  to the registry, but the branch that opens a segment passes the ids of the message as
  they are, the sentinel \<open>-1\<close> of an absent payload included. The first message of a
  session has a key of schema 1 and no value: the registry is called with 1 (decoding),
  1 (the key schema of the segment) and \<open>-1\<close>, and the call raises. The same happens for
  a first message with no key.
\<close>

theorem resolver_called_with_sentinel:
  "m_value msg_1_tombstone = None
   \<and> fst (write_message_to_file demo_registry demo_reader demo_dumps
        (new_session :: byte list session) msg_1_tombstone) = Some SchemaNotFound
   \<and> resolver_calls (snd (write_message_to_file demo_registry demo_reader demo_dumps
        (new_session :: byte list session) msg_1_tombstone)) = [1, 1, - 1]
   \<and> m_key msg_nokey_2 = None
   \<and> resolver_calls (snd (write_message_to_file demo_registry demo_reader demo_dumps
        (new_session :: byte list session) msg_nokey_2)) = [2, - 1]"
  by code_simp

text \<open>
  Claim C3, as stated, fails: a message with no key decodes to the key schema id \<open>-1\<close>,
  and the segment it opens carries that id, in its name and as the current key schema id.
\<close>

theorem segment_with_absent_key:
  "m_key msg_nokey_2 = None
   \<and> mkdir_calls (snd (write_message_to_file demo_registry demo_reader demo_dumps
        (new_session :: byte list session) msg_nokey_2)) = [''0001_-1_2'']
   \<and> segment_name 1 (- 1) 2 = ''0001_-1_2''
   \<and> current_key_schema_id (snd (write_message_to_file demo_registry demo_reader demo_dumps
        (new_session :: byte list session) msg_nokey_2)) = Some (- 1)"
  by code_simp

lemma names_a_message_Cons:
  "names_a_message registry reader ms n \<Longrightarrow> names_a_message registry reader (m # ms) n"
  by (auto simp: names_a_message_def)

lemma write_each_mkdir_calls:
  fixes registry :: "int \<Rightarrow> error + ('o, 'p) schema_pair"
    and reader :: "'p \<Rightarrow> byte list \<Rightarrow> error + 'v option"
    and st :: "'v session"
  assumes "session_inv st"
  shows "\<exists>new. mkdir_calls (write_each registry reader dumps st ms) = mkdir_calls st @ new
           \<and> (\<forall>n\<in>set new. names_a_message registry reader ms n)"
  using assms
proof (induction ms arbitrary: st)
  case Nil
  then show ?case by simp
next
  case (Cons m ms)
  let ?st1 = "snd (write_message_to_file registry reader dumps st m)"
  from Cons.prems have inv1: "session_inv ?st1" by (rule write_step(1))
  from Cons.IH [OF inv1] obtain new where
    new: "mkdir_calls (write_each registry reader dumps ?st1 ms) = mkdir_calls ?st1 @ new"
    and names: "\<forall>n\<in>set new. names_a_message registry reader ms n"
    by blast
  from write_step(2) [OF Cons.prems, of registry reader dumps m]
  consider "mkdir_calls ?st1 = mkdir_calls st"
    | k dk v dv where "decode_result registry reader (m_key m) = Inr (k, dk)"
        "decode_result registry reader (m_value m) = Inr (v, dv)"
        "mkdir_calls ?st1 = mkdir_calls st @ [segment_name (schema_version st) k v]"
    by (auto simp: same_segment_state_def)
  then show ?case
  proof cases
    case 1
    with new names show ?thesis by (auto intro: names_a_message_Cons)
  next
    case 2
    then have "names_a_message registry reader (m # ms) (segment_name (schema_version st) k v)"
      by (auto simp: names_a_message_def)
    with 2(3) new names show ?thesis by (auto intro: names_a_message_Cons)
  qed
qed

text \<open>
  Claim C3, amended. After any sequence of calls on a new session, whether they raise
  or not, every directory made is named after the ids \<open>k\<close> and \<open>v\<close> that one of the
  messages decodes to; its key schema id \<open>k\<close> is at least \<open>-1\<close> and below \<open>2^32\<close>, and
  it is \<open>-1\<close> exactly when that message has no key.
\<close>

theorem segment_key_schema_id_range:
  fixes registry :: "int \<Rightarrow> error + ('o, 'p) schema_pair"
    and reader :: "'p \<Rightarrow> byte list \<Rightarrow> error + 'v option"
  shows "\<forall>n\<in>set (mkdir_calls (write_each registry reader dumps (new_session :: 'v session) ms)).
      \<exists>m\<in>set ms. \<exists>i k dk v dv.
        decode_result registry reader (m_key m) = Inr (k, dk)
        \<and> decode_result registry reader (m_value m) = Inr (v, dv)
        \<and> n = segment_name i k v
        \<and> - 1 \<le> k \<and> k < 2 ^ 32 \<and> (k = - 1 \<longleftrightarrow> m_key m = None)"
proof
  fix n
  assume n: "n \<in> set (mkdir_calls (write_each registry reader dumps (new_session :: 'v session) ms))"
  from write_each_mkdir_calls [OF session_inv_new, of registry reader dumps ms] n
  have "names_a_message registry reader ms n" by (auto simp: new_session_def)
  then obtain m i k dk v dv where m: "m \<in> set ms"
    and key: "decode_result registry reader (m_key m) = Inr (k, dk)"
    and val: "decode_result registry reader (m_value m) = Inr (v, dv)"
    and name: "n = segment_name i k v"
    by (auto simp: names_a_message_def)
  from decode_result_id_range [OF key]
  have "- 1 \<le> k \<and> k < 2 ^ 32 \<and> (k = - 1 \<longleftrightarrow> m_key m = None)" .
  with m key val name show "\<exists>m\<in>set ms. \<exists>i k dk v dv.
        decode_result registry reader (m_key m) = Inr (k, dk)
        \<and> decode_result registry reader (m_value m) = Inr (v, dv)
        \<and> n = segment_name i k v
        \<and> - 1 \<le> k \<and> k < 2 ^ 32 \<and> (k = - 1 \<longleftrightarrow> m_key m = None)"
    by (intro bexI [OF _ m] exI [of _ i] exI [of _ k] exI [of _ dk] exI [of _ v] exI [of _ dv]) simp
qed

theorem segment_key_schema_id_range_witness:
  "''0001_-1_2'' \<in> set (mkdir_calls (write_each demo_registry demo_reader demo_dumps
       (new_session :: byte list session) [msg_nokey_2]))
   \<and> (\<exists>m\<in>set [msg_nokey_2]. \<exists>i k dk v dv.
        decode_result demo_registry demo_reader (m_key m) = Inr (k, dk)
        \<and> decode_result demo_registry demo_reader (m_value m) = Inr (v, dv :: byte list option)
        \<and> ''0001_-1_2'' = segment_name i k v
        \<and> - 1 \<le> k \<and> k < 2 ^ 32 \<and> (k = - 1 \<longleftrightarrow> m_key m = None))"
proof -
  have made: "''0001_-1_2'' \<in> set (mkdir_calls (write_each demo_registry demo_reader demo_dumps
       (new_session :: byte list session) [msg_nokey_2]))"
    by code_simp
  from segment_key_schema_id_range [of demo_registry demo_reader demo_dumps "[msg_nokey_2]"] made
  show ?thesis by blast
qed

subsection \<open>Segment names\<close>

lemma session_inv_distinct:
  assumes "session_inv st"
  shows "distinct (mkdir_calls st)"
proof -
  have "mkdir_calls st ! i \<noteq> mkdir_calls st ! j"
    if "i < length (mkdir_calls st)" "j < length (mkdir_calls st)" "i \<noteq> j" for i j
  proof
    assume eq: "mkdir_calls st ! i = mkdir_calls st ! j"
    from assms that(1) obtain k v where "mkdir_calls st ! i = segment_name (Suc i) k v"
      by (auto simp: session_inv_def)
    moreover from assms that(2) obtain k' v' where "mkdir_calls st ! j = segment_name (Suc j) k' v'"
      by (auto simp: session_inv_def)
    ultimately have "Suc i = Suc j" using eq by (metis segment_name_inj)
    with that(3) show False by simp
  qed
  then show ?thesis by (simp add: distinct_conv_nth)
qed

lemma write_new_segment_inv:
  fixes registry :: "int \<Rightarrow> error + ('o, 'p) schema_pair"
    and reader :: "'p \<Rightarrow> byte list \<Rightarrow> error + 'v option"
    and st :: "'v session"
  assumes inv: "session_inv st"
    and key: "decode_result registry reader (m_key m) = Inr (k, dk)"
    and val: "decode_result registry reader (m_value m) = Inr (v, dv)"
    and trig: "trigger st k v dv"
  shows "mkdir_calls (snd (write_message_to_file registry reader dumps st m)) =
           mkdir_calls st @ [segment_name (Suc (length (mkdir_calls st))) k v]"
    and "schema_dir_name (snd (write_message_to_file registry reader dumps st m)) =
           Some (segment_name (Suc (length (mkdir_calls st))) k v)"
    and "current_key_schema_id (snd (write_message_to_file registry reader dumps st m)) = Some k"
    and "current_value_schema_id (snd (write_message_to_file registry reader dumps st m)) = Some v"
    and "set (out_file (snd (write_message_to_file registry reader dumps st m))) \<subseteq>
           insert \<lparr>r_key = dk, r_value = dv,
                    schema_directory_name = Some (segment_name (Suc (length (mkdir_calls st))) k v)\<rparr>
             (set (out_file st))"
proof -
  let ?st2 = "st\<lparr>resolver_calls := resolver_calls st @ header_ids (m_key m) @ header_ids (m_value m)\<rparr>"
  let ?st' = "snd (write_message_to_file registry reader dumps st m)"
  obtain r st3 where o: "open_segment registry dumps k v ?st2 = (r, st3)"
    by (cases "open_segment registry dumps k v ?st2")
  have inv2: "session_inv ?st2" using inv by simp
  note e = open_segment_inv [OF inv2 o]
  have ver: "schema_version st = Suc (length (mkdir_calls st))"
    using inv by (simp add: session_inv_def)
  have st': "?st' = st3 \<or> ?st' = st3\<lparr>out_file := out_file st3 @
       [\<lparr>r_key = dk, r_value = dv, schema_directory_name = schema_dir_name st3\<rparr>]\<rparr>"
    using o by (cases r) (auto simp: write_new_segment [OF key val trig])
  from st' e(5) ver show "mkdir_calls ?st' = mkdir_calls st @ [segment_name (Suc (length (mkdir_calls st))) k v]"
    by auto
  from st' e(1) ver show "schema_dir_name ?st' = Some (segment_name (Suc (length (mkdir_calls st))) k v)"
    by auto
  from st' e(3) show "current_key_schema_id ?st' = Some k" by auto
  from st' e(4) show "current_value_schema_id ?st' = Some v" by auto
  from st' e(1) e(7) ver show "set (out_file ?st') \<subseteq>
           insert \<lparr>r_key = dk, r_value = dv,
                    schema_directory_name = Some (segment_name (Suc (length (mkdir_calls st))) k v)\<rparr>
             (set (out_file st))"
    by auto
qed

text \<open>
  Claim C6. After any sequence of calls on a new session, whether they raise or not:
  the \<open>i\<close>-th directory made (counting from 0) is named by the number \<open>i + 1\<close> in
  the format \<^verbatim>\<open>:04\<close> (its decimal digits, padded with zeros to four characters),
  an underscore, the key schema id, an underscore and the value schema id; so the numbers
  start at 1 and grow by one with each directory, and no two directories have the same
  name. Whenever a further call opens a segment, for a pair of ids used before or not,
  it makes a directory whose name is none of the earlier ones, and that name becomes the
  current one.
\<close>

theorem segment_names_unique:
  fixes registry :: "int \<Rightarrow> error + ('o, 'p) schema_pair"
    and reader :: "'p \<Rightarrow> byte list \<Rightarrow> error + 'v option"
  shows "let st = write_each registry reader dumps (new_session :: 'v session) ms in
      (\<forall>i<length (mkdir_calls st). \<exists>k v.
          mkdir_calls st ! i = format_04 (Suc i) @ ''_'' @ str_int k @ ''_'' @ str_int v)
      \<and> (\<forall>n. dec_val (format_04 n) = n \<and> 4 \<le> length (format_04 n))
      \<and> distinct (mkdir_calls st)
      \<and> (\<forall>m k dk v dv.
            decode_result registry reader (m_key m) = Inr (k, dk)
            \<and> decode_result registry reader (m_value m) = Inr (v, dv)
            \<and> (schema_dir_name st = None \<or> current_key_schema_id st \<noteq> Some k
                 \<or> (current_value_schema_id st \<noteq> Some v \<and> dv \<noteq> None))
            \<longrightarrow> (let st' = snd (write_message_to_file registry reader dumps st m);
                     name = segment_name (Suc (length (mkdir_calls st))) k v
                 in name \<notin> set (mkdir_calls st)
                    \<and> mkdir_calls st' = mkdir_calls st @ [name]
                    \<and> schema_dir_name st' = Some name))"
proof -
  define st where "st = write_each registry reader dumps (new_session :: 'v session) ms"
  have inv: "session_inv st"
    unfolding st_def by (rule write_each_inv [OF session_inv_new])
  have names: "\<forall>i<length (mkdir_calls st). \<exists>k v.
          mkdir_calls st ! i = format_04 (Suc i) @ ''_'' @ str_int k @ ''_'' @ str_int v"
    using inv by (simp add: session_inv_def segment_name_def)
  have fmt: "\<forall>n. dec_val (format_04 n) = n \<and> 4 \<le> length (format_04 n)"
    by (simp add: dec_val_format_04 length_format_04)
  have dist: "distinct (mkdir_calls st)"
    using inv by (rule session_inv_distinct)
  have ver: "schema_version st = Suc (length (mkdir_calls st))"
    using inv by (simp add: session_inv_def)
  have new: "let st' = snd (write_message_to_file registry reader dumps st m);
                 name = segment_name (Suc (length (mkdir_calls st))) k v
             in name \<notin> set (mkdir_calls st)
                \<and> mkdir_calls st' = mkdir_calls st @ [name]
                \<and> schema_dir_name st' = Some name"
    if "decode_result registry reader (m_key m) = Inr (k, dk)"
      and "decode_result registry reader (m_value m) = Inr (v, dv)"
      and "schema_dir_name st = None \<or> current_key_schema_id st \<noteq> Some k
                 \<or> (current_value_schema_id st \<noteq> Some v \<and> dv \<noteq> None)"
    for m k dk v dv
  proof -
    from that(3) have trig: "trigger st k v dv" by (simp add: trigger_def)
    from session_inv_fresh(1) [OF inv, of k v] ver
    have "segment_name (Suc (length (mkdir_calls st))) k v \<notin> set (mkdir_calls st)" by simp
    with write_new_segment_inv(1,2) [OF inv that(1,2) trig, of dumps]
    show ?thesis by (simp add: Let_def)
  qed
  from names fmt dist new show ?thesis
    unfolding Let_def st_def [symmetric] by blast
qed

theorem segment_names_unique_witness:
  "mkdir_calls (write_each demo_registry demo_reader demo_dumps (new_session :: byte list session)
       [msg_1_2, msg_2_2, msg_1_2]) = [''0001_1_2'', ''0002_2_2'', ''0003_1_2'']
   \<and> (2 :: nat) < length (mkdir_calls (write_each demo_registry demo_reader demo_dumps
       (new_session :: byte list session) [msg_1_2, msg_2_2, msg_1_2]))
   \<and> (\<exists>k v. mkdir_calls (write_each demo_registry demo_reader demo_dumps
       (new_session :: byte list session) [msg_1_2, msg_2_2, msg_1_2]) ! 2
         = format_04 3 @ ''_'' @ str_int k @ ''_'' @ str_int v)
   \<and> distinct (mkdir_calls (write_each demo_registry demo_reader demo_dumps
       (new_session :: byte list session) [msg_1_2, msg_2_2, msg_1_2]))"
proof -
  let ?st = "write_each demo_registry demo_reader demo_dumps (new_session :: byte list session)
       [msg_1_2, msg_2_2, msg_1_2]"
  have made: "mkdir_calls ?st = [''0001_1_2'', ''0002_2_2'', ''0003_1_2'']"
    by code_simp
  then have len: "(2 :: nat) < length (mkdir_calls ?st)" by simp
  from segment_names_unique [of demo_registry demo_reader demo_dumps "[msg_1_2, msg_2_2, msg_1_2]"]
  have "(\<forall>i<length (mkdir_calls ?st). \<exists>k v.
          mkdir_calls ?st ! i = format_04 (Suc i) @ ''_'' @ str_int k @ ''_'' @ str_int v)
        \<and> distinct (mkdir_calls ?st)"
    unfolding Let_def by blast
  with len have "(\<exists>k v. mkdir_calls ?st ! 2 = format_04 (Suc 2) @ ''_'' @ str_int k @ ''_'' @ str_int v)
        \<and> distinct (mkdir_calls ?st)"
    by blast
  then have "(\<exists>k v. mkdir_calls ?st ! 2 = format_04 3 @ ''_'' @ str_int k @ ''_'' @ str_int v)
        \<and> distinct (mkdir_calls ?st)"
    by (simp add: eval_nat_numeral)
  with made len show ?thesis by (intro conjI) simp_all
qed

subsection \<open>A stream with one schema pair\<close>

lemma decodes_toE:
  assumes "decodes_to registry reader m k v"
  obtains dk dv where "decode_result registry reader (m_key m) = Inr (k, dk)"
    and "decode_result registry reader (m_value m) = Inr (v, dv)"
  using assms by (auto simp: decodes_to_def split: sum.splits)

lemma same_pair_steady:
  fixes registry :: "int \<Rightarrow> error + ('o, 'p) schema_pair"
    and reader :: "'p \<Rightarrow> byte list \<Rightarrow> error + 'v option"
    and st :: "'v session"
  assumes "schema_dir_name st = Some name"
    and "current_key_schema_id st = Some k"
    and "current_value_schema_id st = Some v"
    and "\<forall>m\<in>set ms. decodes_to registry reader m k v"
  shows "write_all registry reader dumps st ms = (None, write_each registry reader dumps st ms)
    \<and> mkdir_calls (write_each registry reader dumps st ms) = mkdir_calls st
    \<and> (\<exists>new. out_file (write_each registry reader dumps st ms) = out_file st @ new
          \<and> length new = length ms
          \<and> (\<forall>r\<in>set new. schema_directory_name r = Some name))"
  using assms
proof (induction ms arbitrary: st)
  case Nil
  then show ?case by simp
next
  case (Cons m ms)
  from Cons.prems(4) have "decodes_to registry reader m k v" by simp
  then obtain dk dv where key: "decode_result registry reader (m_key m) = Inr (k, dk)"
    and val: "decode_result registry reader (m_value m) = Inr (v, dv)"
    by (rule decodes_toE)
  have no: "\<not> trigger st k v dv"
    using Cons.prems(1-3) by (simp add: trigger_def)
  let ?r = "\<lparr>r_key = dk, r_value = dv, schema_directory_name = schema_dir_name st\<rparr>"
  let ?st1 = "st\<lparr>resolver_calls := resolver_calls st @ header_ids (m_key m) @ header_ids (m_value m),
               out_file := out_file st @ [?r]\<rparr>"
  have step: "write_message_to_file registry reader dumps st m = (None, ?st1)"
    by (rule write_same_segment [OF key val no])
  have "write_all registry reader dumps ?st1 ms = (None, write_each registry reader dumps ?st1 ms)
    \<and> mkdir_calls (write_each registry reader dumps ?st1 ms) = mkdir_calls ?st1
    \<and> (\<exists>new. out_file (write_each registry reader dumps ?st1 ms) = out_file ?st1 @ new
          \<and> length new = length ms
          \<and> (\<forall>r\<in>set new. schema_directory_name r = Some name))"
    using Cons.prems by (intro Cons.IH) simp_all
  then obtain new where all: "write_all registry reader dumps ?st1 ms =
        (None, write_each registry reader dumps ?st1 ms)"
    and made: "mkdir_calls (write_each registry reader dumps ?st1 ms) = mkdir_calls st"
    and out: "out_file (write_each registry reader dumps ?st1 ms) = out_file st @ ?r # new"
    and len: "length new = length ms"
    and names: "\<forall>r\<in>set new. schema_directory_name r = Some name"
    by auto
  have "length (?r # new) = length (m # ms) \<and> (\<forall>r\<in>set (?r # new). schema_directory_name r = Some name)"
    using len names Cons.prems(1) by simp
  with out have "\<exists>new'. out_file (write_each registry reader dumps ?st1 ms) = out_file st @ new'
      \<and> length new' = length (m # ms) \<and> (\<forall>r\<in>set new'. schema_directory_name r = Some name)"
    by blast
  with all made show ?case by (simp add: step)
qed

lemma write_new_segment_ok:
  fixes registry :: "int \<Rightarrow> error + ('o, 'p) schema_pair"
    and reader :: "'p \<Rightarrow> byte list \<Rightarrow> error + 'v option"
    and st :: "'v session"
  assumes inv: "session_inv st"
    and key: "decode_result registry reader (m_key m) = Inr (k, dk)"
    and val: "decode_result registry reader (m_value m) = Inr (v, dv)"
    and trig: "trigger st k v dv"
    and ks: "registry k = Inr ks" and vs: "registry v = Inr vs"
  shows "fst (write_message_to_file registry reader dumps st m) = None"
    and "out_file (snd (write_message_to_file registry reader dumps st m)) =
           out_file st @ [\<lparr>r_key = dk, r_value = dv,
              schema_directory_name = Some (segment_name (schema_version st) k v)\<rparr>]"
    and "working_dir (snd (write_message_to_file registry reader dumps st m)) =
           (working_dir st)(segment_name (schema_version st) k v \<mapsto>
              [''key_schema.avsc'' \<mapsto> dumps (original_schema ks),
               ''value_schema.avsc'' \<mapsto> dumps (original_schema vs)])"
proof -
  let ?st2 = "st\<lparr>resolver_calls := resolver_calls st @ header_ids (m_key m) @ header_ids (m_value m)\<rparr>"
  have inv2: "session_inv ?st2" using inv by simp
  have fresh: "working_dir ?st2 (segment_name (schema_version ?st2) k v) = None"
    by (rule session_inv_fresh(2) [OF inv2])
  note o = open_segment_fresh [OF fresh, where registry = registry and dumps = dumps]
  show "fst (write_message_to_file registry reader dumps st m) = None"
    by (simp add: write_new_segment [OF key val trig] o ks vs Let_def)
  show "out_file (snd (write_message_to_file registry reader dumps st m)) =
           out_file st @ [\<lparr>r_key = dk, r_value = dv,
              schema_directory_name = Some (segment_name (schema_version st) k v)\<rparr>]"
    by (simp add: write_new_segment [OF key val trig] o ks vs Let_def opened_def)
  show "working_dir (snd (write_message_to_file registry reader dumps st m)) =
           (working_dir st)(segment_name (schema_version st) k v \<mapsto>
              [''key_schema.avsc'' \<mapsto> dumps (original_schema ks),
               ''value_schema.avsc'' \<mapsto> dumps (original_schema vs)])"
    by (simp add: write_new_segment [OF key val trig] o ks vs Let_def opened_def)
qed

lemma write_new_segment_succeeded:
  fixes registry :: "int \<Rightarrow> error + ('o, 'p) schema_pair"
    and reader :: "'p \<Rightarrow> byte list \<Rightarrow> error + 'v option"
    and st :: "'v session"
  assumes inv: "session_inv st"
    and key: "decode_result registry reader (m_key m) = Inr (k, dk)"
    and val: "decode_result registry reader (m_value m) = Inr (v, dv)"
    and trig: "trigger st k v dv"
    and ok: "fst (write_message_to_file registry reader dumps st m) = None"
  obtains ks vs where "registry k = Inr ks" and "registry v = Inr vs"
proof -
  let ?st2 = "st\<lparr>resolver_calls := resolver_calls st @ header_ids (m_key m) @ header_ids (m_value m)\<rparr>"
  have inv2: "session_inv ?st2" using inv by simp
  have fresh: "working_dir ?st2 (segment_name (schema_version ?st2) k v) = None"
    by (rule session_inv_fresh(2) [OF inv2])
  note o = open_segment_fresh [OF fresh, where registry = registry and dumps = dumps]
  from ok have "\<exists>ks vs. registry k = Inr ks \<and> registry v = Inr vs"
    by (cases "registry k"; cases "registry v")
       (simp_all add: write_new_segment [OF key val trig] o Let_def)
  with that show thesis by blast
qed

text \<open>
  What holds of a non-empty stream whose messages all decode to the same pair of
  schema ids \<open>k\<close> and \<open>v\<close>, written to a new session: it makes exactly one directory,
  the segment numbered 1 with these ids, and every record appended carries its name.
  When the registry serves both ids, no call raises and as many records are appended
  as there are messages.
\<close>

lemma one_segment_for_one_schema_pair:
  fixes registry :: "int \<Rightarrow> error + ('o, 'p) schema_pair"
    and reader :: "'p \<Rightarrow> byte list \<Rightarrow> error + 'v option"
  assumes nonempty: "ms \<noteq> []"
    and same: "\<forall>m\<in>set ms. decodes_to registry reader m k v"
  shows "let st = write_each registry reader dumps (new_session :: 'v session) ms;
             name = segment_name 1 k v
         in mkdir_calls st = [name]
            \<and> (\<forall>r\<in>set (out_file st). schema_directory_name r = Some name)
            \<and> ((\<exists>ks. registry k = Inr ks) \<and> (\<exists>vs. registry v = Inr vs) \<longrightarrow>
                  write_all registry reader dumps new_session ms = (None, st)
                  \<and> length (out_file st) = length ms)"
proof -
  from nonempty obtain m ms' where ms: "ms = m # ms'" by (cases ms) auto
  define name where "name = segment_name 1 k v"
  let ?new = "new_session :: 'v session"
  let ?st1 = "snd (write_message_to_file registry reader dumps ?new m)"
  let ?st = "write_each registry reader dumps ?st1 ms'"
  from same ms have "decodes_to registry reader m k v" by simp
  then obtain dk dv where key: "decode_result registry reader (m_key m) = Inr (k, dk)"
    and val: "decode_result registry reader (m_value m) = Inr (v, dv)"
    by (rule decodes_toE)
  have trig: "trigger ?new k v dv" by (simp add: trigger_def new_session_def)
  have empty: "mkdir_calls ?new = []" "out_file ?new = []" "schema_version ?new = 1"
    by (simp_all add: new_session_def)
  note first = write_new_segment_inv [OF session_inv_new key val trig, of dumps]
  from first(1) have made1: "mkdir_calls ?st1 = [name]" by (simp add: empty name_def)
  from first(2) have name1: "schema_dir_name ?st1 = Some name" by (simp add: empty name_def)
  from first(5) have out1: "\<forall>r\<in>set (out_file ?st1). schema_directory_name r = Some name"
    by (auto simp: empty name_def)
  from same ms have rest: "\<forall>m\<in>set ms'. decodes_to registry reader m k v" by simp
  from same_pair_steady [OF name1 first(3) first(4) rest, of dumps]
  obtain new where all: "write_all registry reader dumps ?st1 ms' = (None, ?st)"
    and made: "mkdir_calls ?st = mkdir_calls ?st1"
    and out: "out_file ?st = out_file ?st1 @ new"
    and len: "length new = length ms'"
    and names: "\<forall>r\<in>set new. schema_directory_name r = Some name"
    by blast
  have a: "mkdir_calls ?st = [name]" using made made1 by simp
  have b: "\<forall>r\<in>set (out_file ?st). schema_directory_name r = Some name"
    using out out1 names by auto
  have c: "write_all registry reader dumps ?new ms = (None, ?st) \<and> length (out_file ?st) = length ms"
    if "\<exists>ks. registry k = Inr ks" and "\<exists>vs. registry v = Inr vs"
  proof -
    from that obtain ks vs where ks: "registry k = Inr ks" and vs: "registry v = Inr vs" by blast
    note ok = write_new_segment_ok [OF session_inv_new key val trig ks vs, of dumps]
    from ok(1) all have "write_all registry reader dumps ?new ms = (None, ?st)"
      by (cases "write_message_to_file registry reader dumps ?new m") (simp add: ms)
    moreover from ok(2) out len have "length (out_file ?st) = length ms" by (simp add: ms empty)
    ultimately show ?thesis by simp
  qed
  from a b c show ?thesis
    unfolding Let_def name_def [symmetric] by (simp add: ms)
qed

lemma one_segment_for_one_schema_pair_example:
  "[msg_1_2, msg_1_2, msg_1_2] \<noteq> []
   \<and> decodes_to demo_registry demo_reader msg_1_2 1 2
   \<and> segment_name 1 1 2 = ''0001_1_2''
   \<and> mkdir_calls (write_each demo_registry demo_reader demo_dumps (new_session :: byte list session)
        [msg_1_2, msg_1_2, msg_1_2]) = [segment_name 1 1 2]
   \<and> write_all demo_registry demo_reader demo_dumps (new_session :: byte list session)
        [msg_1_2, msg_1_2, msg_1_2] =
      (None, write_each demo_registry demo_reader demo_dumps new_session [msg_1_2, msg_1_2, msg_1_2])
   \<and> length (out_file (write_each demo_registry demo_reader demo_dumps (new_session :: byte list session)
        [msg_1_2, msg_1_2, msg_1_2])) = length [msg_1_2, msg_1_2, msg_1_2]"
proof -
  have ne: "[msg_1_2, msg_1_2, msg_1_2] \<noteq> []" by simp
  have dec: "decodes_to demo_registry demo_reader msg_1_2 1 (2 :: int)" by code_simp
  then have same: "\<forall>m\<in>set [msg_1_2, msg_1_2, msg_1_2]. decodes_to demo_registry demo_reader m 1 2"
    by simp
  have name: "segment_name 1 1 2 = ''0001_1_2''" by code_simp
  have reg: "(\<exists>ks. demo_registry 1 = Inr ks) \<and> (\<exists>vs. demo_registry 2 = Inr vs)"
    by (simp add: demo_registry_def)
  from one_segment_for_one_schema_pair [OF ne same, of demo_dumps] reg
  have "mkdir_calls (write_each demo_registry demo_reader demo_dumps (new_session :: byte list session)
        [msg_1_2, msg_1_2, msg_1_2]) = [segment_name 1 1 2]
   \<and> write_all demo_registry demo_reader demo_dumps (new_session :: byte list session)
        [msg_1_2, msg_1_2, msg_1_2] =
      (None, write_each demo_registry demo_reader demo_dumps new_session [msg_1_2, msg_1_2, msg_1_2])
   \<and> length (out_file (write_each demo_registry demo_reader demo_dumps (new_session :: byte list session)
        [msg_1_2, msg_1_2, msg_1_2])) = length [msg_1_2, msg_1_2, msg_1_2]"
    unfolding Let_def by blast
  with ne dec name show ?thesis by (intro conjI) simp_all
qed

text \<open>
  Claim C7 does not hold of the code for a stream whose messages have no key, or no
  value. Three messages without key and with a value of schema 2 all decode to the pair
  \<open>(-1, 2)\<close>. The first call makes the directory \<^verbatim>\<open>0001_-1_2\<close> and then asks the
  registry for the schema \<open>-1\<close>, which raises before the record is appended: a caller
  that goes on with the next message gets two records for three messages, a caller that
  does not gets none. The same happens for three tombstones of one key schema.
\<close>

theorem same_pair_stream_loses_a_record:
  "decodes_to demo_registry demo_reader msg_nokey_2 (- 1) 2
   \<and> mkdir_calls (write_each demo_registry demo_reader demo_dumps (new_session :: byte list session)
        [msg_nokey_2, msg_nokey_2, msg_nokey_2]) = [''0001_-1_2'']
   \<and> length (out_file (write_each demo_registry demo_reader demo_dumps
        (new_session :: byte list session) [msg_nokey_2, msg_nokey_2, msg_nokey_2])) = 2
   \<and> fst (write_all demo_registry demo_reader demo_dumps (new_session :: byte list session)
        [msg_nokey_2, msg_nokey_2, msg_nokey_2]) = Some SchemaNotFound
   \<and> out_file (snd (write_all demo_registry demo_reader demo_dumps (new_session :: byte list session)
        [msg_nokey_2, msg_nokey_2, msg_nokey_2])) = []
   \<and> resolver_calls (snd (write_all demo_registry demo_reader demo_dumps
        (new_session :: byte list session) [msg_nokey_2, msg_nokey_2, msg_nokey_2])) = [2, - 1]
   \<and> decodes_to demo_registry demo_reader msg_1_tombstone 1 (- 1)
   \<and> length (out_file (write_each demo_registry demo_reader demo_dumps
        (new_session :: byte list session) [msg_1_tombstone, msg_1_tombstone, msg_1_tombstone])) = 2"
  by code_simp

subsection \<open>Reading one record\<close>

lemma read_from_file_Nil: "read_from_file load wd [] = (Inr None, [])"
  by (simp add: read_from_file_def)

lemma read_from_file_snd: "snd (read_from_file load wd (r # rest)) = rest"
  by (simp add: read_from_file_def split: option.splits sum.splits)

lemma read_from_file_not_eof: "fst (read_from_file load wd (r # rest)) \<noteq> Inr None"
  by (simp add: read_from_file_def split: option.splits sum.splits)

lemma read_from_file_missing_dir:
  assumes "schema_directory_name r = Some name" and "wd name = None"
  shows "read_from_file load wd (r # rest) = (Inl FileNotFoundError, rest)"
  using assms by (simp add: read_from_file_def read_text_def)

lemma read_from_file_ok:
  assumes "schema_directory_name r = Some name" and "wd name = Some d"
    and "d ''key_schema.avsc'' = Some kt" and "d ''value_schema.avsc'' = Some vt"
    and "load kt = Inr ks" and "load vt = Inr vs"
  shows "read_from_file load wd (r # rest) =
     (Inr (Some \<lparr>k_key = r_key r, k_value = r_value r, key_schema = ks, value_schema = vs\<rparr>), rest)"
  using assms by (simp add: read_from_file_def read_text_def)

lemma read_from_file_returns:
  assumes "schema_directory_name r = Some name"
    and "fst (read_from_file load wd (r # rest)) = Inr (Some km)"
  shows "\<exists>d kt vt ks vs. wd name = Some d
      \<and> d ''key_schema.avsc'' = Some kt \<and> d ''value_schema.avsc'' = Some vt
      \<and> load kt = Inr ks \<and> load vt = Inr vs
      \<and> km = \<lparr>k_key = r_key r, k_value = r_value r, key_schema = ks, value_schema = vs\<rparr>"
  using assms
  by (auto simp: read_from_file_def read_text_def split: option.splits sum.splits)

lemma read_all_error:
  assumes "fst (read_from_file load wd (r # rest)) = Inl e"
  shows "read_all load wd (r # rest) = Inl e"
  using assms by simp

text \<open>
  Claim C9, as stated, fails where it says that the call returns the message whenever
  the directory is there. The archive below is written by the writer itself: the first
  tombstone opens the segment \<^verbatim>\<open>0001_1_-1\<close> and raises before the value schema is
  written, the second is appended to that segment. The directory exists and holds the key
  schema, and reading the record raises \<open>FileNotFoundError\<close>.
\<close>

theorem present_directory_read_fails:
  "map schema_directory_name (out_file (write_each demo_registry demo_reader demo_dumps
       (new_session :: byte list session) [msg_1_tombstone, msg_1_tombstone])) = [Some ''0001_1_-1'']
   \<and> read_text (working_dir (write_each demo_registry demo_reader demo_dumps
       (new_session :: byte list session) [msg_1_tombstone, msg_1_tombstone]))
         ''0001_1_-1'' ''key_schema.avsc'' = Inr ''K1''
   \<and> fst (read_from_file demo_load
        (working_dir (write_each demo_registry demo_reader demo_dumps
           (new_session :: byte list session) [msg_1_tombstone, msg_1_tombstone]))
        (out_file (write_each demo_registry demo_reader demo_dumps
           (new_session :: byte list session) [msg_1_tombstone, msg_1_tombstone])))
      = Inl FileNotFoundError"
  by code_simp

text \<open>
  Claim C9, amended. \<open>read_from_file\<close> returns \<^verbatim>\<open>None\<close> exactly when no record is
  left. For a record that names a directory: when the directory is absent the call
  raises \<open>FileNotFoundError\<close>; when the directory holds both schema documents and both
  parse, the call returns the key and the value of the record with the two parsed
  schemas; it returns a message in no other case. A call that raises has consumed the
  record, and the sequence of reads ends with its error.
\<close>

theorem read_from_file_outcomes:
  "(fst (read_from_file load wd file) = Inr None \<longleftrightarrow> file = [])
   \<and> (file = r # rest \<and> schema_directory_name r = Some name \<longrightarrow>
        (wd name = None \<longrightarrow> read_from_file load wd file = (Inl FileNotFoundError, rest))
        \<and> (\<forall>d kt vt ks vs.
              wd name = Some d
              \<and> d ''key_schema.avsc'' = Some kt \<and> d ''value_schema.avsc'' = Some vt
              \<and> load kt = Inr ks \<and> load vt = Inr vs
              \<longrightarrow> read_from_file load wd file =
                    (Inr (Some \<lparr>k_key = r_key r, k_value = r_value r,
                                key_schema = ks, value_schema = vs\<rparr>), rest))
        \<and> (\<forall>km. fst (read_from_file load wd file) = Inr (Some km) \<longrightarrow>
              (\<exists>d kt vt ks vs.
                 wd name = Some d
                 \<and> d ''key_schema.avsc'' = Some kt \<and> d ''value_schema.avsc'' = Some vt
                 \<and> load kt = Inr ks \<and> load vt = Inr vs))
        \<and> (\<forall>e. fst (read_from_file load wd file) = Inl e \<longrightarrow>
              snd (read_from_file load wd file) = rest \<and> read_all load wd file = Inl e))"
proof -
  have eof: "fst (read_from_file load wd file) = Inr None \<longleftrightarrow> file = []"
    by (cases "file") (simp_all add: read_from_file_Nil read_from_file_not_eof)
  have rest: "(wd name = None \<longrightarrow> read_from_file load wd file = (Inl FileNotFoundError, rest))
        \<and> (\<forall>d kt vt ks vs.
              wd name = Some d
              \<and> d ''key_schema.avsc'' = Some kt \<and> d ''value_schema.avsc'' = Some vt
              \<and> load kt = Inr ks \<and> load vt = Inr vs
              \<longrightarrow> read_from_file load wd file =
                    (Inr (Some \<lparr>k_key = r_key r, k_value = r_value r,
                                key_schema = ks, value_schema = vs\<rparr>), rest))
        \<and> (\<forall>km. fst (read_from_file load wd file) = Inr (Some km) \<longrightarrow>
              (\<exists>d kt vt ks vs.
                 wd name = Some d
                 \<and> d ''key_schema.avsc'' = Some kt \<and> d ''value_schema.avsc'' = Some vt
                 \<and> load kt = Inr ks \<and> load vt = Inr vs))
        \<and> (\<forall>e. fst (read_from_file load wd file) = Inl e \<longrightarrow>
              snd (read_from_file load wd file) = rest \<and> read_all load wd file = Inl e)"
    if shape: "file = r # rest" and name: "schema_directory_name r = Some name"
  proof (intro conjI allI impI)
    assume "wd name = None"
    with name show "read_from_file load wd file = (Inl FileNotFoundError, rest)"
      unfolding shape by (rule read_from_file_missing_dir)
  next
    fix d kt vt ks vs
    assume "wd name = Some d
              \<and> d ''key_schema.avsc'' = Some kt \<and> d ''value_schema.avsc'' = Some vt
              \<and> load kt = Inr ks \<and> load vt = Inr vs"
    with name show "read_from_file load wd file =
                    (Inr (Some \<lparr>k_key = r_key r, k_value = r_value r,
                                key_schema = ks, value_schema = vs\<rparr>), rest)"
      unfolding shape by (simp add: read_from_file_ok)
  next
    fix km
    assume "fst (read_from_file load wd file) = Inr (Some km)"
    with name read_from_file_returns [of r name load wd rest km]
    show "\<exists>d kt vt ks vs.
                 wd name = Some d
                 \<and> d ''key_schema.avsc'' = Some kt \<and> d ''value_schema.avsc'' = Some vt
                 \<and> load kt = Inr ks \<and> load vt = Inr vs"
      unfolding shape by blast
  next
    fix e
    assume "fst (read_from_file load wd file) = Inl e"
    then show "read_all load wd file = Inl e"
      unfolding shape by (rule read_all_error)
  next
    fix e
    show "snd (read_from_file load wd file) = rest"
      unfolding shape by (rule read_from_file_snd)
  qed
  from eof rest show ?thesis by blast
qed

theorem read_from_file_outcomes_witness:
  "[''0001_1_2'' \<mapsto> [''key_schema.avsc'' \<mapsto> ''K1'', ''value_schema.avsc'' \<mapsto> ''V2'']] ''0001_1_2''
     = Some [''key_schema.avsc'' \<mapsto> ''K1'', ''value_schema.avsc'' \<mapsto> ''V2'']
   \<and> demo_load ''K1'' = Inr ''K1'' \<and> demo_load ''V2'' = Inr ''V2''
   \<and> read_from_file demo_load
        [''0001_1_2'' \<mapsto> [''key_schema.avsc'' \<mapsto> ''K1'', ''value_schema.avsc'' \<mapsto> ''V2'']]
        [\<lparr>r_key = Some [7 :: byte], r_value = None, schema_directory_name = Some ''0001_1_2''\<rparr>]
      = (Inr (Some \<lparr>k_key = Some [7], k_value = None, key_schema = ''K1'', value_schema = ''V2''\<rparr>), [])
   \<and> read_from_file demo_load Map.empty
        [\<lparr>r_key = Some [7 :: byte], r_value = None, schema_directory_name = Some ''0001_1_2''\<rparr>]
      = (Inl FileNotFoundError, [])"
proof -
  let ?d = "[''key_schema.avsc'' \<mapsto> ''K1'', ''value_schema.avsc'' \<mapsto> ''V2'']"
  let ?wd = "[''0001_1_2'' \<mapsto> ?d]"
  let ?r = "\<lparr>r_key = Some [7 :: byte], r_value = None, schema_directory_name = Some ''0001_1_2''\<rparr>"
  have dir: "?wd ''0001_1_2'' = Some ?d" by simp
  have files: "?d ''key_schema.avsc'' = Some ''K1''" "?d ''value_schema.avsc'' = Some ''V2''"
    by simp_all
  have loads: "demo_load ''K1'' = Inr ''K1''" "demo_load ''V2'' = Inr ''V2''"
    by (simp_all add: demo_load_def)
  have name: "schema_directory_name ?r = Some ''0001_1_2''" by simp
  from read_from_file_outcomes [of demo_load ?wd "[?r]" ?r "[]" "''0001_1_2''"] name dir files loads
  have ok: "read_from_file demo_load ?wd [?r] =
      (Inr (Some \<lparr>k_key = r_key ?r, k_value = r_value ?r, key_schema = ''K1'', value_schema = ''V2''\<rparr>), [])"
    by blast
  from read_from_file_outcomes [of demo_load Map.empty "[?r]" ?r "[]" "''0001_1_2''"] name
  have missing: "read_from_file demo_load Map.empty [?r] = (Inl FileNotFoundError, [])"
    by simp
  from dir loads ok missing show ?thesis by simp
qed

subsection \<open>Writing an archive and reading it back\<close>

lemma archived_as_mono:
  assumes "archived_as registry reader dumps wd m r"
    and "\<forall>n\<in>dom wd. wd' n = wd n"
  shows "archived_as registry reader dumps wd' m r"
proof -
  from assms(1) obtain k dk v dv n v' ks vs where
    a: "decode_result registry reader (m_key m) = Inr (k, dk)"
       "decode_result registry reader (m_value m) = Inr (v, dv)"
       "r = \<lparr>r_key = dk, r_value = dv, schema_directory_name = Some (segment_name n k v')\<rparr>"
       "dv \<noteq> None \<longrightarrow> v' = v"
       "registry k = Inr ks" "registry v' = Inr vs"
    and dir: "wd (segment_name n k v') =
             Some [''key_schema.avsc'' \<mapsto> dumps (original_schema ks),
                   ''value_schema.avsc'' \<mapsto> dumps (original_schema vs)]"
    unfolding archived_as_def by blast
  from dir have "segment_name n k v' \<in> dom wd" by (simp add: domI)
  with assms(2) dir have "wd' (segment_name n k v') =
             Some [''key_schema.avsc'' \<mapsto> dumps (original_schema ks),
                   ''value_schema.avsc'' \<mapsto> dumps (original_schema vs)]"
    by simp
  with a show ?thesis unfolding archived_as_def by blast
qed

lemma write_ok_step:
  fixes registry :: "int \<Rightarrow> error + ('o, 'p) schema_pair"
    and reader :: "'p \<Rightarrow> byte list \<Rightarrow> error + 'v option"
    and st :: "'v session"
  assumes inv: "session_inv st"
    and seg: "segment_on_disk registry dumps st"
    and ok: "write_message_to_file registry reader dumps st m = (None, st1)"
  shows "\<exists>r. out_file st1 = out_file st @ [r]
           \<and> archived_as registry reader dumps (working_dir st1) m r"
    and "\<forall>n\<in>dom (working_dir st). working_dir st1 n = working_dir st n"
    and "session_inv st1" and "segment_on_disk registry dumps st1"
proof -
  from inv have inv1: "session_inv st1"
    using write_step(1) [OF inv, of registry reader dumps m] ok by simp
  have ver: "schema_version st = Suc (length (mkdir_calls st))"
    using inv by (simp add: session_inv_def)
  have "(\<exists>r. out_file st1 = out_file st @ [r]
           \<and> archived_as registry reader dumps (working_dir st1) m r)
    \<and> (\<forall>n\<in>dom (working_dir st). working_dir st1 n = working_dir st n)
    \<and> segment_on_disk registry dumps st1"
  proof (cases rule: write_cases [where registry = registry and reader = reader and m = m and st = st])
    case (key_fails e)
    with ok show ?thesis by (simp add: write_key_fails)
  next
    case (value_fails k dk e)
    with ok show ?thesis by (simp add: write_value_fails)
  next
    case (same_segment k dk v dv)
    from same_segment(3) obtain name where name: "schema_dir_name st = Some name"
      and cur_k: "current_key_schema_id st = Some k"
      and cur_v: "current_value_schema_id st = Some v \<or> dv = None"
      by (auto simp: trigger_def)
    from seg name cur_k obtain n v0 ks vs where nm: "name = segment_name n k v0"
      and cur_v0: "current_value_schema_id st = Some v0"
      and ks: "registry k = Inr ks" and vs: "registry v0 = Inr vs"
      and dir: "working_dir st name =
                 Some [''key_schema.avsc'' \<mapsto> dumps (original_schema ks),
                       ''value_schema.avsc'' \<mapsto> dumps (original_schema vs)]"
      by (auto simp: segment_on_disk_def)
    let ?r = "\<lparr>r_key = dk, r_value = dv, schema_directory_name = schema_dir_name st\<rparr>"
    have st1: "st1 = st\<lparr>resolver_calls := resolver_calls st @ header_ids (m_key m) @ header_ids (m_value m),
               out_file := out_file st @ [?r]\<rparr>"
      using ok write_same_segment [OF same_segment, of dumps] by simp
    have same: "dv \<noteq> None \<longrightarrow> v0 = v" using cur_v cur_v0 by auto
    have "archived_as registry reader dumps (working_dir st1) m ?r"
      unfolding archived_as_def
      using same_segment(1,2) name nm same ks vs dir
      by (intro exI [of _ k] exI [of _ dk] exI [of _ v] exI [of _ dv] exI [of _ n]
          exI [of _ v0] exI [of _ ks] exI [of _ vs]) (simp add: st1)
    then have a: "\<exists>r. out_file st1 = out_file st @ [r]
           \<and> archived_as registry reader dumps (working_dir st1) m r"
      by (intro exI [of _ ?r]) (simp add: st1)
    have b: "\<forall>n\<in>dom (working_dir st). working_dir st1 n = working_dir st n"
      by (simp add: st1)
    have c: "segment_on_disk registry dumps st1"
      using seg by (simp add: st1 segment_on_disk_def)
    from a b c show ?thesis by blast
  next
    case (new_segment k dk v dv)
    from ok have fst_ok: "fst (write_message_to_file registry reader dumps st m) = None" by simp
    from write_new_segment_succeeded [OF inv new_segment fst_ok]
    obtain ks vs where ks: "registry k = Inr ks" and vs: "registry v = Inr vs" by blast
    define name where "name = segment_name (schema_version st) k v"
    let ?d = "[''key_schema.avsc'' \<mapsto> dumps (original_schema ks),
              ''value_schema.avsc'' \<mapsto> dumps (original_schema vs)]"
    let ?r = "\<lparr>r_key = dk, r_value = dv, schema_directory_name = Some name\<rparr>"
    note w = write_new_segment_ok [OF inv new_segment ks vs, of dumps]
    from w(2) ok have out: "out_file st1 = out_file st @ [?r]" by (simp add: name_def)
    from w(3) ok have wd: "working_dir st1 = (working_dir st)(name \<mapsto> ?d)" by (simp add: name_def)
    have fresh: "working_dir st name = None"
      unfolding name_def by (rule session_inv_fresh(2) [OF inv])
    note f = write_new_segment_inv [OF inv new_segment, of dumps]
    from f(2) ok ver have name1: "schema_dir_name st1 = Some name" by (simp add: name_def)
    from f(3) ok have k1: "current_key_schema_id st1 = Some k" by simp
    from f(4) ok have v1: "current_value_schema_id st1 = Some v" by simp
    have "archived_as registry reader dumps (working_dir st1) m ?r"
      unfolding archived_as_def
      using new_segment(1,2) ks vs
      by (intro exI [of _ k] exI [of _ dk] exI [of _ v] exI [of _ dv]
          exI [of _ "schema_version st"] exI [of _ v] exI [of _ ks] exI [of _ vs])
         (simp add: wd name_def)
    with out have a: "\<exists>r. out_file st1 = out_file st @ [r]
           \<and> archived_as registry reader dumps (working_dir st1) m r"
      by blast
    have b: "\<forall>n\<in>dom (working_dir st). working_dir st1 n = working_dir st n"
      using fresh by (auto simp: wd)
    have c: "segment_on_disk registry dumps st1"
      unfolding segment_on_disk_def
      using name1 k1 v1 ks vs
      by (intro allI impI exI [of _ "schema_version st"] exI [of _ k] exI [of _ v]
          exI [of _ ks] exI [of _ vs]) (simp add: wd name_def)
    from a b c show ?thesis by blast
  qed
  then show "\<exists>r. out_file st1 = out_file st @ [r]
           \<and> archived_as registry reader dumps (working_dir st1) m r"
    and "\<forall>n\<in>dom (working_dir st). working_dir st1 n = working_dir st n"
    and "segment_on_disk registry dumps st1"
    by simp_all
  show "session_inv st1" by (rule inv1)
qed

lemma segment_on_disk_new: "segment_on_disk registry dumps new_session"
  by (simp add: segment_on_disk_def new_session_def)

lemma write_all_archived:
  fixes registry :: "int \<Rightarrow> error + ('o, 'p) schema_pair"
    and reader :: "'p \<Rightarrow> byte list \<Rightarrow> error + 'v option"
    and st :: "'v session"
  assumes "session_inv st"
    and "segment_on_disk registry dumps st"
    and "write_all registry reader dumps st ms = (None, st')"
  shows "\<exists>new. out_file st' = out_file st @ new
           \<and> list_all2 (archived_as registry reader dumps (working_dir st')) ms new
           \<and> (\<forall>n\<in>dom (working_dir st). working_dir st' n = working_dir st n)"
  using assms
proof (induction ms arbitrary: st)
  case Nil
  then show ?case by simp
next
  case (Cons m ms)
  obtain e st1 where w: "write_message_to_file registry reader dumps st m = (e, st1)"
    by (cases "write_message_to_file registry reader dumps st m")
  with Cons.prems(3) have e: "e = None"
    and rest: "write_all registry reader dumps st1 ms = (None, st')"
    by (cases e; simp)+
  note step = write_ok_step [OF Cons.prems(1,2) w [unfolded e]]
  from step(1) obtain r where out1: "out_file st1 = out_file st @ [r]"
    and arch: "archived_as registry reader dumps (working_dir st1) m r"
    by blast
  from Cons.IH [OF step(3,4) rest] obtain new where
    out: "out_file st' = out_file st1 @ new"
    and archs: "list_all2 (archived_as registry reader dumps (working_dir st')) ms new"
    and frame: "\<forall>n\<in>dom (working_dir st1). working_dir st' n = working_dir st1 n"
    by blast
  from arch frame have a: "archived_as registry reader dumps (working_dir st') m r"
    by (rule archived_as_mono)
  have b: "out_file st' = out_file st @ r # new"
    using out out1 by simp
  have c: "list_all2 (archived_as registry reader dumps (working_dir st')) (m # ms) (r # new)"
    using a archs by simp
  have d: "\<forall>n\<in>dom (working_dir st). working_dir st' n = working_dir st n"
  proof
    fix n assume n: "n \<in> dom (working_dir st)"
    with step(2) have eq: "working_dir st1 n = working_dir st n" by blast
    with n have "n \<in> dom (working_dir st1)" by (auto simp: dom_def)
    with frame eq show "working_dir st' n = working_dir st n" by simp
  qed
  from b c d show ?case by blast
qed

lemma read_from_file_fst_Cons:
  "fst (read_from_file load wd (r # rs)) = fst (read_from_file load wd [r])"
  by (simp add: read_from_file_def split: option.splits sum.splits)

lemma read_all_Cons_ok:
  assumes "fst (read_from_file load wd [r]) = Inr (Some km)" and "read_all load wd rs = Inr kms"
  shows "read_all load wd (r # rs) = Inr (km # kms)"
  using assms by (simp add: read_from_file_fst_Cons [of load wd r rs])

lemma read_archived:
  fixes registry :: "int \<Rightarrow> error + ('o, 'p) schema_pair"
    and reader :: "'p \<Rightarrow> byte list \<Rightarrow> error + 'v option"
    and load :: "string \<Rightarrow> error + 's"
  assumes arch: "archived_as registry reader dumps wd m r"
    and parses: "\<forall>name d file_name text. wd name = Some d \<and> d file_name = Some text \<longrightarrow>
                   (\<exists>s. load text = Inr s)"
  shows "\<exists>km. fst (read_from_file load wd [r]) = Inr (Some km)
           \<and> read_back_as registry reader dumps load m r km"
proof -
  from arch obtain k dk v dv n v' ks vs where
    key: "decode_result registry reader (m_key m) = Inr (k, dk)"
    and val: "decode_result registry reader (m_value m) = Inr (v, dv)"
    and r: "r = \<lparr>r_key = dk, r_value = dv, schema_directory_name = Some (segment_name n k v')\<rparr>"
    and same: "dv \<noteq> None \<longrightarrow> v' = v"
    and ks: "registry k = Inr ks" and vs: "registry v' = Inr vs"
    and dir: "wd (segment_name n k v') =
             Some [''key_schema.avsc'' \<mapsto> dumps (original_schema ks),
                   ''value_schema.avsc'' \<mapsto> dumps (original_schema vs)]"
    unfolding archived_as_def by blast
  let ?d = "[''key_schema.avsc'' \<mapsto> dumps (original_schema ks),
             ''value_schema.avsc'' \<mapsto> dumps (original_schema vs)]"
  have kf: "?d ''key_schema.avsc'' = Some (dumps (original_schema ks))" by simp
  have vf: "?d ''value_schema.avsc'' = Some (dumps (original_schema vs))" by simp
  from parses dir kf obtain sk where sk: "load (dumps (original_schema ks)) = Inr sk" by blast
  from parses dir vf obtain sv where sv: "load (dumps (original_schema vs)) = Inr sv" by blast
  let ?km = "\<lparr>k_key = dk, k_value = dv, key_schema = sk, value_schema = sv\<rparr>"
  have name: "schema_directory_name r = Some (segment_name n k v')" by (simp add: r)
  have rd: "read_from_file load wd [r] = (Inr (Some ?km), [])"
    using read_from_file_ok [where r = r and wd = wd and load = load and rest = "[]",
        OF name dir kf vf sk sv]
    by (simp add: r)
  have "read_back_as registry reader dumps load m r ?km"
    unfolding read_back_as_def
    using key val name same ks vs sk sv
    by (intro exI [of _ k] exI [of _ dk] exI [of _ v] exI [of _ dv] exI [of _ n] exI [of _ v'])
       (simp add: schema_doc_def)
  with rd show ?thesis by (intro exI [of _ ?km]) simp
qed

lemma read_all_archived:
  fixes registry :: "int \<Rightarrow> error + ('o, 'p) schema_pair"
    and reader :: "'p \<Rightarrow> byte list \<Rightarrow> error + 'v option"
    and load :: "string \<Rightarrow> error + 's"
  assumes archs: "list_all2 (archived_as registry reader dumps wd) ms rs"
    and parses: "\<forall>name d file_name text. wd name = Some d \<and> d file_name = Some text \<longrightarrow>
                   (\<exists>s. load text = Inr s)"
  shows "\<exists>kms. read_all load wd rs = Inr kms
           \<and> length kms = length ms
           \<and> (\<forall>i<length ms. read_back_as registry reader dumps load (ms ! i) (rs ! i) (kms ! i))"
  using archs
proof (induction ms rs rule: list_all2_induct)
  case Nil
  then show ?case by simp
next
  case (Cons m ms r rs)
  from read_archived [OF Cons.hyps(1) parses]
  obtain km where rd: "fst (read_from_file load wd [r]) = Inr (Some km)"
    and this_one: "read_back_as registry reader dumps load m r km"
    by blast
  from Cons.IH obtain kms where rds: "read_all load wd rs = Inr kms"
    and len: "length kms = length ms"
    and backs: "\<forall>i<length ms. read_back_as registry reader dumps load (ms ! i) (rs ! i) (kms ! i)"
    by blast
  have a: "read_all load wd (r # rs) = Inr (km # kms)"
    using rd rds by (rule read_all_Cons_ok)
  have b: "read_back_as registry reader dumps load ((m # ms) ! i) ((r # rs) ! i) ((km # kms) ! i)"
    if "i < length (m # ms)" for i
    using that this_one backs by (cases i) simp_all
  from a b len show ?case by (intro exI [of _ "km # kms"]) simp
qed

text \<open>
  Claim C4, amended. Let every call of a stream written to a new session return, and let
  the schema parser accept every schema document in the working directory. Then reading
  the file back returns as many messages as were written, in the same order, each with
  the decoded key and value of its message. The record of each message carries the name
  of the segment it was appended to, built from the key schema id of the message and a
  value schema id \<open>v'\<close>; the message read back has the key schema that the registry
  returned for the key schema id and the value schema that the registry returned for
  \<open>v'\<close>, the value schema of that segment; and \<open>v'\<close> is the value schema id of the message
  itself whenever its decoded value is present.
\<close>

theorem roundtrip:
  fixes registry :: "int \<Rightarrow> error + ('o, 'p) schema_pair"
    and reader :: "'p \<Rightarrow> byte list \<Rightarrow> error + 'v option"
    and load :: "string \<Rightarrow> error + 's"
  assumes archived: "write_all registry reader dumps (new_session :: 'v session) ms = (None, st)"
    and parses: "\<forall>name d file_name text.
                   working_dir st name = Some d \<and> d file_name = Some text \<longrightarrow>
                   (\<exists>s. load text = Inr s)"
  shows "\<exists>kms. read_all load (working_dir st) (out_file st) = Inr kms
      \<and> length kms = length ms \<and> length (out_file st) = length ms
      \<and> (\<forall>i<length ms. \<exists>k dk v dv n v'.
            decode_result registry reader (m_key (ms ! i)) = Inr (k, dk)
            \<and> decode_result registry reader (m_value (ms ! i)) = Inr (v, dv)
            \<and> k_key (kms ! i) = dk \<and> k_value (kms ! i) = dv
            \<and> schema_directory_name (out_file st ! i) = Some (segment_name n k v')
            \<and> (dv \<noteq> None \<longrightarrow> v' = v)
            \<and> schema_doc registry dumps load k = Inr (key_schema (kms ! i))
            \<and> schema_doc registry dumps load v' = Inr (value_schema (kms ! i)))"
proof -
  from write_all_archived [OF session_inv_new segment_on_disk_new archived]
  have archs: "list_all2 (archived_as registry reader dumps (working_dir st)) ms (out_file st)"
    by (auto simp: new_session_def)
  then have len: "length (out_file st) = length ms"
    by (simp add: list_all2_lengthD)
  from read_all_archived [OF archs parses]
  obtain kms where rd: "read_all load (working_dir st) (out_file st) = Inr kms"
    and klen: "length kms = length ms"
    and backs: "\<forall>i<length ms.
        read_back_as registry reader dumps load (ms ! i) (out_file st ! i) (kms ! i)"
    by blast
  from backs have "\<forall>i<length ms. \<exists>k dk v dv n v'.
            decode_result registry reader (m_key (ms ! i)) = Inr (k, dk)
            \<and> decode_result registry reader (m_value (ms ! i)) = Inr (v, dv)
            \<and> k_key (kms ! i) = dk \<and> k_value (kms ! i) = dv
            \<and> schema_directory_name (out_file st ! i) = Some (segment_name n k v')
            \<and> (dv \<noteq> None \<longrightarrow> v' = v)
            \<and> schema_doc registry dumps load k = Inr (key_schema (kms ! i))
            \<and> schema_doc registry dumps load v' = Inr (value_schema (kms ! i))"
    unfolding read_back_as_def by simp
  with rd klen len show ?thesis by blast
qed

text \<open>The archive of a message followed by a tombstone of the same key schema.\<close>

lemma demo_archive:
  fixes st :: "byte list session"
  assumes "st = snd (write_all demo_registry demo_reader demo_dumps new_session
                       [msg_1_2, msg_1_tombstone])"
  shows "write_all demo_registry demo_reader demo_dumps new_session [msg_1_2, msg_1_tombstone]
           = (None, st)"
    and "working_dir st =
           [''0001_1_2'' \<mapsto> [''key_schema.avsc'' \<mapsto> ''K1'', ''value_schema.avsc'' \<mapsto> ''V2'']]"
proof -
  let ?new = "new_session :: byte list session"
  let ?w1 = "write_message_to_file demo_registry demo_reader demo_dumps ?new msg_1_2"
  let ?st1 = "snd ?w1"
  have key1: "decode_result demo_registry demo_reader (m_key msg_1_2) = Inr (1, Some [7])"
    by code_simp
  have val1: "decode_result demo_registry demo_reader (m_value msg_1_2) = Inr (2, Some [8])"
    by code_simp
  have key2: "decode_result demo_registry demo_reader (m_key msg_1_tombstone) = Inr (1, Some [7])"
    by code_simp
  have val2: "decode_result demo_registry demo_reader (m_value msg_1_tombstone) = Inr (- 1, None)"
    by code_simp
  have trig: "trigger ?new 1 2 (Some [8])"
    by (simp add: trigger_def new_session_def)
  have ks: "demo_registry 1 = Inr \<lparr>original_schema = ''K1'', parsed_schema = 1\<rparr>"
    and vs: "demo_registry 2 = Inr \<lparr>original_schema = ''V2'', parsed_schema = 2\<rparr>"
    by (simp_all add: demo_registry_def)
  have name: "segment_name (Suc 0) 1 2 = ''0001_1_2''" by code_simp
  have start: "schema_version ?new = Suc 0" "working_dir ?new = Map.empty"
    by (simp_all add: new_session_def)
  note ok = write_new_segment_ok [OF session_inv_new key1 val1 trig ks vs, of demo_dumps]
  note fields = write_new_segment_inv [OF session_inv_new key1 val1 trig, of demo_dumps]
  from ok(3) have wd1: "working_dir ?st1 =
      [''0001_1_2'' \<mapsto> [''key_schema.avsc'' \<mapsto> ''K1'', ''value_schema.avsc'' \<mapsto> ''V2'']]"
    by (simp add: start name demo_dumps_def)
  from fields(2) have "schema_dir_name ?st1 \<noteq> None" by simp
  with fields(3) have no: "\<not> trigger ?st1 1 (- 1) None"
    by (simp add: trigger_def)
  note w2 = write_same_segment [OF key2 val2 no, of demo_dumps]
  from ok(1) w2 have all: "write_all demo_registry demo_reader demo_dumps ?new [msg_1_2, msg_1_tombstone]
      = (None, snd (write_message_to_file demo_registry demo_reader demo_dumps ?st1 msg_1_tombstone))"
    by (cases ?w1) simp
  with assms show "write_all demo_registry demo_reader demo_dumps new_session [msg_1_2, msg_1_tombstone]
           = (None, st)"
    by simp
  from all assms w2 wd1 show "working_dir st =
           [''0001_1_2'' \<mapsto> [''key_schema.avsc'' \<mapsto> ''K1'', ''value_schema.avsc'' \<mapsto> ''V2'']]"
    by simp
qed

theorem roundtrip_witness:
  "fst (write_all demo_registry demo_reader demo_dumps (new_session :: byte list session)
          [msg_1_2, msg_1_tombstone]) = None
   \<and> (\<exists>kms :: (byte list, string) kafka_message list.
        read_all demo_load
          (working_dir (snd (write_all demo_registry demo_reader demo_dumps
             (new_session :: byte list session) [msg_1_2, msg_1_tombstone])))
          (out_file (snd (write_all demo_registry demo_reader demo_dumps
             (new_session :: byte list session) [msg_1_2, msg_1_tombstone]))) = Inr kms
        \<and> length kms = length [msg_1_2, msg_1_tombstone]
        \<and> (\<exists>n v'. schema_directory_name
               (out_file (snd (write_all demo_registry demo_reader demo_dumps
                  (new_session :: byte list session) [msg_1_2, msg_1_tombstone])) ! 1)
                = Some (segment_name n 1 v')
             \<and> k_key (kms ! 1) = Some [7] \<and> k_value (kms ! 1) = None
             \<and> schema_doc demo_registry demo_dumps demo_load 1 = Inr (key_schema (kms ! 1))
             \<and> schema_doc demo_registry demo_dumps demo_load v' = Inr (value_schema (kms ! 1))))"
proof -
  let ?ms = "[msg_1_2, msg_1_tombstone]"
  let ?res = "write_all demo_registry demo_reader demo_dumps (new_session :: byte list session) ?ms"
  note arch = demo_archive [OF refl]
  have ok: "fst ?res = None" by code_simp
  have parses: "\<forall>name d file_name text.
      working_dir (snd ?res) name = Some d \<and> d file_name = Some text \<longrightarrow>
      (\<exists>s. demo_load text = Inr s)"
    unfolding arch(2) by (auto simp: demo_load_def split: if_splits)
  have key: "decode_result demo_registry demo_reader (m_key (?ms ! 1)) = Inr (1, Some [7])"
    by code_simp
  have val: "decode_result demo_registry demo_reader (m_value (?ms ! 1)) = Inr (- 1, None)"
    by code_simp
  from roundtrip [OF arch(1) parses]
  obtain kms :: "(byte list, string) kafka_message list"
    where rd: "read_all demo_load (working_dir (snd ?res)) (out_file (snd ?res)) = Inr kms"
      and len: "length kms = length ?ms"
      and each: "\<forall>i<length ?ms. \<exists>k dk v dv n v'.
            decode_result demo_registry demo_reader (m_key (?ms ! i)) = Inr (k, dk)
            \<and> decode_result demo_registry demo_reader (m_value (?ms ! i)) = Inr (v, dv)
            \<and> k_key (kms ! i) = dk \<and> k_value (kms ! i) = dv
            \<and> schema_directory_name (out_file (snd ?res) ! i) = Some (segment_name n k v')
            \<and> (dv \<noteq> None \<longrightarrow> v' = v)
            \<and> schema_doc demo_registry demo_dumps demo_load k = Inr (key_schema (kms ! i))
            \<and> schema_doc demo_registry demo_dumps demo_load v' = Inr (value_schema (kms ! i))"
    by blast
  from each have "\<exists>k dk v dv n v'.
            decode_result demo_registry demo_reader (m_key (?ms ! 1)) = Inr (k, dk)
            \<and> decode_result demo_registry demo_reader (m_value (?ms ! 1)) = Inr (v, dv)
            \<and> k_key (kms ! 1) = dk \<and> k_value (kms ! 1) = dv
            \<and> schema_directory_name (out_file (snd ?res) ! 1) = Some (segment_name n k v')
            \<and> schema_doc demo_registry demo_dumps demo_load k = Inr (key_schema (kms ! 1))
            \<and> schema_doc demo_registry demo_dumps demo_load v' = Inr (value_schema (kms ! 1))"
    by force
  with key val have "\<exists>n v'. schema_directory_name (out_file (snd ?res) ! 1) = Some (segment_name n 1 v')
             \<and> k_key (kms ! 1) = Some [7] \<and> k_value (kms ! 1) = None
             \<and> schema_doc demo_registry demo_dumps demo_load 1 = Inr (key_schema (kms ! 1))
             \<and> schema_doc demo_registry demo_dumps demo_load v' = Inr (value_schema (kms ! 1))"
    by auto
  with rd len ok show ?thesis by blast
qed

text \<open>
  Claim C4, as stated, fails in two ways. First, for the value schema of a message
  without decoded value: the second message below is a tombstone (value schema id
  \<open>-1\<close>, which the registry does not know) and the third has a value of schema 3 that
  decodes to \<^verbatim>\<open>None\<close>; neither opens a segment, and both are read back with the value
  schema of the segment, that of id 2, not with what the registry returns for their own
  ids. Second, archiving can succeed and reading fail: the message of the second stream
  has a value of schema 4, which the Avro decoder reads; the document is written to the
  segment, the schema parser rejects it, and reading the record raises.
\<close>

theorem roundtrip_fails_as_stated:
  "fst (write_all demo_registry demo_reader demo_dumps (new_session :: byte list session)
          [msg_1_2, msg_1_tombstone, msg_1_3]) = None
   \<and> read_all demo_load
        (working_dir (snd (write_all demo_registry demo_reader demo_dumps
           (new_session :: byte list session) [msg_1_2, msg_1_tombstone, msg_1_3])))
        (out_file (snd (write_all demo_registry demo_reader demo_dumps
           (new_session :: byte list session) [msg_1_2, msg_1_tombstone, msg_1_3])))
      = Inr [\<lparr>k_key = Some [7], k_value = Some [8], key_schema = ''K1'', value_schema = ''V2''\<rparr>,
             \<lparr>k_key = Some [7], k_value = None, key_schema = ''K1'', value_schema = ''V2''\<rparr>,
             \<lparr>k_key = Some [7], k_value = None, key_schema = ''K1'', value_schema = ''V2''\<rparr>]
   \<and> decode_result demo_registry demo_reader (m_value msg_1_3) = Inr (3, None :: byte list option)
   \<and> schema_doc demo_registry demo_dumps demo_load 3 = Inr ''null''
   \<and> decode_result demo_registry demo_reader (m_value msg_1_tombstone) = Inr (- 1, None :: byte list option)
   \<and> schema_doc demo_registry demo_dumps demo_load (- 1) = Inl SchemaNotFound
   \<and> fst (write_all demo_registry demo_reader demo_dumps (new_session :: byte list session)
          [msg_1_4]) = None
   \<and> map schema_directory_name
        (out_file (snd (write_all demo_registry demo_reader demo_dumps
           (new_session :: byte list session) [msg_1_4]))) = [Some ''0001_1_4'']
   \<and> read_text (working_dir (snd (write_all demo_registry demo_reader demo_dumps
           (new_session :: byte list session) [msg_1_4]))) ''0001_1_4'' ''value_schema.avsc'' = Inr []
   \<and> demo_load [] = Inl SchemaParseError
   \<and> read_all demo_load
        (working_dir (snd (write_all demo_registry demo_reader demo_dumps
           (new_session :: byte list session) [msg_1_4])))
        (out_file (snd (write_all demo_registry demo_reader demo_dumps
           (new_session :: byte list session) [msg_1_4])))
      = (Inl SchemaParseError :: error + (byte list, string) kafka_message list)"
  by code_simp

end
